theory Spec2Isabelle
  imports Complex_Main "HOL-Library.Log_Nat" "HOL-Library.Multiset"
begin

section \<open>JavaScript numbers\<close>

text \<open>
  Every \<^verbatim>\<open>number\<close> of the program is an IEEE-754 binary64 value. A number is
  modelled by its exact rational value, and every arithmetic operation computes the exact
  result and rounds it to the nearest binary64 value, ties to the even significand
  (\<open>binary64\<close>). Subnormal spacing is kept (the exponent is clamped at \<open>-1074\<close>);
  NaN, the infinities, negative zero and overflow beyond \<open>2^1024\<close> are outside the model.
\<close>

definition round_even :: "rat \<Rightarrow> int" where
  "round_even y = (let f = \<lfloor>y\<rfloor>; r = y - of_int f in
     if r < 1/2 then f else if 1/2 < r then f + 1 else if even f then f else f + 1)"

text \<open>\<open>ilog2 a\<close> is the integer \<open>k\<close> with \<open>2^k \<le> a < 2^(k+1)\<close>, for \<open>a > 0\<close>.\<close>

definition ilog2 :: "rat \<Rightarrow> int" where
  "ilog2 a = (case quotient_of a of (p, q) \<Rightarrow>
     let d = bitlen p - bitlen q in
     if a < 2 powi d then d - 1 else d)"

definition binary64 :: "rat \<Rightarrow> rat" where
  "binary64 x = (if x = 0 then 0 else
     let e = max (ilog2 \<bar>x\<bar> - 52) (- 1074) in
     of_int (round_even (x / 2 powi e)) * 2 powi e)"

text \<open>The operators \<^verbatim>\<open>+\<close>, \<^verbatim>\<open>-\<close>, \<^verbatim>\<open>*\<close>, \<^verbatim>\<open>/\<close> on numbers.\<close>

definition fadd :: "rat \<Rightarrow> rat \<Rightarrow> rat" where
  "fadd a b = binary64 (a + b)"

definition fsub :: "rat \<Rightarrow> rat \<Rightarrow> rat" where
  "fsub a b = binary64 (a - b)"

definition fmul :: "rat \<Rightarrow> rat \<Rightarrow> rat" where
  "fmul a b = binary64 (a * b)"

definition fdiv :: "rat \<Rightarrow> rat \<Rightarrow> rat" where
  "fdiv a b = binary64 (a / b)"

text \<open>\<^verbatim>\<open>Math.floor\<close>, whose result is again a number.\<close>

definition Math_floor :: "rat \<Rightarrow> rat" where
  "Math_floor x = of_int \<lfloor>x\<rfloor>"

section \<open>Strings and number formatting\<close>

text \<open>\<^verbatim>\<open>Number.prototype.toString\<close> on a non-negative integer below \<open>10^21\<close>: its
  decimal digits.\<close>

definition digit_char :: "nat \<Rightarrow> char" where
  "digit_char d = ''0123456789'' ! d"

fun digits :: "nat \<Rightarrow> string" where
  "digits n = (if n < 10 then [digit_char n] else digits (n div 10) @ [digit_char (n mod 10)])"

declare digits.simps [simp del]

text \<open>\<^verbatim>\<open>String.prototype.padStart\<close> with a one-character filler.\<close>

definition padStart :: "nat \<Rightarrow> char \<Rightarrow> string \<Rightarrow> string" where
  "padStart n c s = replicate (n - length s) c @ s"

text \<open>
  \<^verbatim>\<open>x.toFixed(2)\<close>, after the algorithm of ECMAScript: for \<open>\<bar>x\<bar> < 10^21\<close> the
  integer \<open>n\<close> nearest to \<open>100 * \<bar>x\<bar>\<close> is taken (the larger one on a tie, decided on
  the exact value of the number), its digits are left-padded to three and the point is put
  before the last two. From \<open>10^21\<close> on \<^verbatim>\<open>toFixed\<close> returns the engine's
  \<^verbatim>\<open>ToString(x)\<close>, an exponent notation that reads back as \<open>x\<close>; that text is
  kept symbolic (\<open>Exponential x\<close>).
\<close>

datatype num_text = Fixed string | Exponential rat

definition toFixed2 :: "rat \<Rightarrow> num_text" where
  "toFixed2 x =
     (if 10 ^ 21 \<le> \<bar>x\<bar> then Exponential x
      else let n = nat \<lfloor>\<bar>x\<bar> * 100 + 1/2\<rfloor>;
               m = padStart 3 (CHR ''0'') (digits n);
               k = length m - 2
           in Fixed ((if x < 0 then ''-'' else []) @ take k m @ ''.'' @ drop k m))"

text \<open>
  \<^verbatim>\<open>Number(s)\<close> on the texts \<^verbatim>\<open>toFixed\<close> produces: an optional sign, integer
  digits, a point and fraction digits are read as a decimal, which is rounded to the nearest
  binary64 value.
\<close>

definition digit_val :: "char \<Rightarrow> nat" where
  "digit_val c = of_char c - 48"

definition parse_nat :: "string \<Rightarrow> nat" where
  "parse_nat s = foldl (\<lambda>a c. 10 * a + digit_val c) 0 s"

definition decimal_value :: "string \<Rightarrow> rat" where
  "decimal_value s =
     (let neg = (take 1 s = ''-'');
          body = (if neg then drop 1 s else s);
          ip = takeWhile (\<lambda>c. c \<noteq> CHR ''.'') body;
          fp = drop 1 (dropWhile (\<lambda>c. c \<noteq> CHR ''.'') body);
          v = of_nat (parse_nat ip) + of_nat (parse_nat fp) / 10 ^ length fp
      in if neg then - v else v)"

fun Number_of :: "num_text \<Rightarrow> rat" where
  "Number_of (Fixed s) = binary64 (decimal_value s)"
| "Number_of (Exponential x) = x"

text \<open>\<^verbatim>\<open>s.replace(pat, rep)\<close> with a string pattern: the first occurrence only.\<close>

fun replace_first :: "string \<Rightarrow> string \<Rightarrow> string \<Rightarrow> string" where
  "replace_first pat rep [] = (if pat = [] then rep else [])"
| "replace_first pat rep (c # cs) =
     (if take (length pat) (c # cs) = pat then rep @ drop (length pat) (c # cs)
      else c # replace_first pat rep cs)"

section \<open>The data model (\<^verbatim>\<open>src/types/invoice.ts\<close>)\<close>

record InvoiceItem =
  item_id :: string
  descripcion :: string
  cantidad :: rat
  precioUnitario :: rat
  alicuotaIVA :: rat
  importeIVA :: rat
  importeTotal :: rat

record ClienteData =
  tipoDocumento :: string
  numeroDocumento :: string
  razonSocial :: string
  domicilio :: string
  condicionIVA :: string

text \<open>The type of \<^verbatim>\<open>tipoComprobante\<close> is the union of three string literals; at run
  time it is a string, and \<^verbatim>\<open>getTipoComprobante\<close> takes any string.\<close>

record InvoiceData =
  tipoComprobante :: string
  puntoVenta :: rat
  numeroComprobante :: rat
  fecha :: string
  cliente :: ClienteData
  items :: "InvoiceItem list"
  subtotal :: rat
  totalIVA :: rat
  total :: rat
  observaciones :: "string option"

record AFIPResponse =
  success :: bool
  cae :: "string option"
  fechaVencimientoCae :: "string option"
  numeroComprobante :: "rat option"
  qrCode :: "string option"
  error :: "string option"
  observaciones :: "string list option"

datatype ambiente = Testing | Production

record AFIPConfig =
  cuit :: string
  puntoVenta :: rat
  certificatePath :: string
  certificatePassword :: string
  endpoint :: string
  ambiente :: ambiente

section \<open>The invoice form (\<^verbatim>\<open>src/app/page.tsx\<close>)\<close>

text \<open>The effect that recomputes the derived fields of every watched item.\<close>

definition recompute_item :: "InvoiceItem \<Rightarrow> InvoiceItem" where
  "recompute_item item =
     (let subtotalItem = fmul (cantidad item) (precioUnitario item);
          ivaItem = fmul subtotalItem (fdiv (alicuotaIVA item) 100);
          totalItem = fadd subtotalItem ivaItem
      in item\<lparr>importeIVA := Number_of (toFixed2 ivaItem),
              importeTotal := Number_of (toFixed2 totalItem)\<rparr>)"

definition recompute_items :: "InvoiceItem list \<Rightarrow> InvoiceItem list" where
  "recompute_items watchedItems = map recompute_item watchedItems"

record Totals =
  totals_subtotal :: rat
  totals_totalIVA :: rat
  totals_total :: rat

definition calculateTotals :: "InvoiceItem list \<Rightarrow> Totals" where
  "calculateTotals its =
     (let subtotal = foldl (\<lambda>sum item. fadd sum (fmul (cantidad item) (precioUnitario item))) 0 its;
          totalIVA = foldl (\<lambda>sum item. fadd sum (importeIVA item)) 0 its;
          total = fadd subtotal totalIVA
      in \<lparr>totals_subtotal = Number_of (toFixed2 subtotal),
          totals_totalIVA = Number_of (toFixed2 totalIVA),
          totals_total = Number_of (toFixed2 total)\<rparr>)"

section \<open>The authorization service (\<^verbatim>\<open>src/lib/afip.ts\<close>)\<close>

subsection \<open>What the service takes from outside\<close>

text \<open>A thrown value: an \<^verbatim>\<open>Error\<close> with its message, or anything else.\<close>

datatype exn = Error string | Thrown

text \<open>A calendar date of the proleptic Gregorian calendar; the year is an integer (year 0
  is 1 BC), the month runs from 1 to 12.\<close>

record date =
  year :: int
  month :: nat
  day :: nat

text \<open>The request document handed to the XML builder, one field per element of the
  object literal of \<^verbatim>\<open>generateXMLRequest\<close>, in its order.\<close>

datatype tipo_value = Num nat | Inherited string

record AlicIva =
  ar_Id :: nat
  ar_BaseImp :: num_text
  ar_Importe :: num_text

record xml_request =
  ar_Token :: string
  ar_Sign :: string
  ar_Cuit :: string
  ar_CantReg :: nat
  ar_PtoVta :: rat
  ar_CbteTipo :: tipo_value
  ar_Concepto :: nat
  ar_DocTipo :: nat
  ar_DocNro :: string
  ar_CbteDesde :: rat
  ar_CbteHasta :: rat
  ar_CbteFch :: string
  ar_ImpTotal :: num_text
  ar_ImpTotConc :: nat
  ar_ImpNeto :: num_text
  ar_ImpOpEx :: nat
  ar_ImpIVA :: num_text
  ar_ImpTrib :: nat
  ar_MonId :: string
  ar_MonCotiz :: nat
  ar_AlicIva :: "AlicIva list"

text \<open>
  A JSON text is modelled at the level of its tokens: a \<open>TString\<close> stands for the quoted
  and escaped rendering of a string and a \<open>TNumber\<close> for the rendering of a number,
  both of which the engine reads back unchanged.
\<close>

datatype jvalue = JNumber rat | JString string | JFunction | JEmptyObject

datatype jtoken = LBrace | RBrace | Colon | Comma | TString string | TNumber rat

text \<open>
  The environment of one call: the value \<^verbatim>\<open>Math.random()\<close> returns; the clock
  (\<^verbatim>\<open>new Date()\<close>) as the methods \<^verbatim>\<open>getDate\<close> and \<^verbatim>\<open>setDate\<close> read it, in
  local time: its calendar date and the milliseconds since local midnight; the time zone,
  as the offset in milliseconds of local time from UTC that is in effect at a given local
  date and time of day (ECMAScript's \<^verbatim>\<open>LocalTZA\<close>); and the two library calls that can
  throw, \<^verbatim>\<open>xml2js\<close>'s \<^verbatim>\<open>buildObject\<close> and \<^verbatim>\<open>QRCode.toDataURL\<close>.
\<close>

record env =
  Math_random :: rat
  Date_now :: date
  Date_now_ms :: nat
  LocalTZA :: "date \<Rightarrow> nat \<Rightarrow> int"
  buildObject :: "xml_request \<Rightarrow> exn + string"
  toDataURL :: "jtoken list \<Rightarrow> exn + string"

text \<open>The calls of its own methods that \<^verbatim>\<open>sendInvoice\<close> makes are logged, in order.\<close>

datatype call = SendInvoice | GenerateXMLRequest | SignXML | GenerateSimulatedCAE
  | GetFechaVencimientoCAE | GenerateQRCode

subsection \<open>\<^verbatim>\<open>getTipoComprobante\<close>\<close>

text \<open>
  \<^verbatim>\<open>tipos[tipo] || 1\<close> reads a property of an object literal: an own entry of the table,
  or else a member inherited from \<^verbatim>\<open>Object.prototype\<close> (all of them truthy, so they
  are returned as they are), or else \<^verbatim>\<open>undefined\<close>, which \<^verbatim>\<open>||\<close> replaces by 1.
\<close>

definition tipos :: "(string \<times> nat) list" where
  "tipos = [(''factura'', 1), (''nota_credito'', 2), (''nota_debito'', 3)]"

definition Object_prototype :: "string list" where
  "Object_prototype = [''constructor'', ''__defineGetter__'', ''__defineSetter__'',
     ''hasOwnProperty'', ''__lookupGetter__'', ''__lookupSetter__'', ''isPrototypeOf'',
     ''propertyIsEnumerable'', ''toString'', ''valueOf'', ''__proto__'', ''toLocaleString'']"

definition getTipoComprobante :: "string \<Rightarrow> tipo_value" where
  "getTipoComprobante tipo =
     (case map_of tipos tipo of
        Some n \<Rightarrow> (if n \<noteq> 0 then Num n else Num 1)
      | None \<Rightarrow> (if tipo \<in> set Object_prototype then Inherited tipo else Num 1))"

subsection \<open>\<^verbatim>\<open>generateXMLRequest\<close> and \<^verbatim>\<open>signXML\<close>\<close>

definition xmlData :: "AFIPConfig \<Rightarrow> InvoiceData \<Rightarrow> xml_request" where
  "xmlData config invoiceData =
     (let tipoComprobante = getTipoComprobante (tipoComprobante invoiceData) in
      \<lparr>ar_Token = ''TOKEN_PLACEHOLDER'',
       ar_Sign = ''SIGN_PLACEHOLDER'',
       ar_Cuit = cuit config,
       ar_CantReg = 1,
       ar_PtoVta = AFIPConfig.puntoVenta config,
       ar_CbteTipo = tipoComprobante,
       ar_Concepto = 1,
       ar_DocTipo = 80,
       ar_DocNro = numeroDocumento (cliente invoiceData),
       ar_CbteDesde = InvoiceData.numeroComprobante invoiceData,
       ar_CbteHasta = InvoiceData.numeroComprobante invoiceData,
       ar_CbteFch = filter (\<lambda>c. c \<noteq> CHR ''-'') (fecha invoiceData),
       ar_ImpTotal = toFixed2 (total invoiceData),
       ar_ImpTotConc = 0,
       ar_ImpNeto = toFixed2 (subtotal invoiceData),
       ar_ImpOpEx = 0,
       ar_ImpIVA = toFixed2 (totalIVA invoiceData),
       ar_ImpTrib = 0,
       ar_MonId = ''PES'',
       ar_MonCotiz = 1,
       ar_AlicIva = map (\<lambda>item.
          \<lparr>ar_Id = 5,
           ar_BaseImp = toFixed2 (fmul (cantidad item) (precioUnitario item)),
           ar_Importe = toFixed2 (importeIVA item)\<rparr>) (items invoiceData)\<rparr>)"

definition generateXMLRequest :: "env \<Rightarrow> AFIPConfig \<Rightarrow> InvoiceData \<Rightarrow> exn + string" where
  "generateXMLRequest e config invoiceData = buildObject e (xmlData config invoiceData)"

definition signXML :: "string \<Rightarrow> string" where
  "signXML xml =
     replace_first ''SIGN_PLACEHOLDER'' ''SIMULATED_SIGNATURE''
       (replace_first ''TOKEN_PLACEHOLDER'' ''SIMULATED_TOKEN'' xml)"

subsection \<open>\<^verbatim>\<open>generateQRCode\<close>\<close>

text \<open>An object literal keeps its properties in the order they are written.\<close>

definition jvalue_of_tipo :: "tipo_value \<Rightarrow> jvalue" where
  "jvalue_of_tipo t =
     (case t of Num n \<Rightarrow> JNumber (of_nat n)
      | Inherited k \<Rightarrow> (if k = ''__proto__'' then JEmptyObject else JFunction))"

definition qrData :: "AFIPConfig \<Rightarrow> InvoiceData \<Rightarrow> string \<Rightarrow> (string \<times> jvalue) list" where
  "qrData config invoiceData cae_code =
     [(''ver'', JNumber 1),
      (''fecha'', JString (fecha invoiceData)),
      (''cuit'', JString (cuit config)),
      (''ptoVta'', JNumber (AFIPConfig.puntoVenta config)),
      (''tipoCmp'', jvalue_of_tipo (getTipoComprobante (tipoComprobante invoiceData))),
      (''nroCmp'', JNumber (InvoiceData.numeroComprobante invoiceData)),
      (''importe'', JNumber (total invoiceData)),
      (''moneda'', JString ''PES''),
      (''ctz'', JNumber 1),
      (''tipoDocRec'', JNumber 80),
      (''nroDocRec'', JString (numeroDocumento (cliente invoiceData))),
      (''tipoCodAut'', JString ''E''),
      (''codAut'', JString cae_code)]"

text \<open>\<^verbatim>\<open>JSON.stringify\<close> of such an object: a property whose value is a function is
  left out, the others are written in order.\<close>

fun value_tokens :: "jvalue \<Rightarrow> jtoken list" where
  "value_tokens (JNumber x) = [TNumber x]"
| "value_tokens (JString s) = [TString s]"
| "value_tokens JEmptyObject = [LBrace, RBrace]"
| "value_tokens JFunction = []"

fun member_tokens :: "(string \<times> jvalue) list \<Rightarrow> jtoken list" where
  "member_tokens [] = []"
| "member_tokens [(k, v)] = TString k # Colon # value_tokens v"
| "member_tokens ((k, v) # m # ms) =
     TString k # Colon # value_tokens v @ Comma # member_tokens (m # ms)"

definition JSON_stringify :: "(string \<times> jvalue) list \<Rightarrow> jtoken list" where
  "JSON_stringify obj =
     LBrace # member_tokens (filter (\<lambda>(k, v). v \<noteq> JFunction) obj) @ [RBrace]"

definition generateQRCode :: "env \<Rightarrow> AFIPConfig \<Rightarrow> InvoiceData \<Rightarrow> string \<Rightarrow> exn + string" where
  "generateQRCode e config invoiceData cae_code =
     (let qrString = JSON_stringify (qrData config invoiceData cae_code)
      in toDataURL e qrString)"

subsection \<open>The simulated authorization\<close>

definition generateSimulatedCAE :: "env \<Rightarrow> string" where
  "generateSimulatedCAE e =
     padStart 14 (CHR ''0'')
       (digits (nat \<lfloor>Math_floor (fmul (Math_random e) 99999999999999)\<rfloor>))"

text \<open>The calendar: leap years, the lengths of the months, and the number of a day, counted
  so that consecutive days have consecutive numbers (ECMAScript's \<^verbatim>\<open>Day\<close>, up to the
  number of the epoch 1970-01-01).\<close>

definition leap_year :: "int \<Rightarrow> bool" where
  "leap_year y = (y mod 4 = 0 \<and> (y mod 100 \<noteq> 0 \<or> y mod 400 = 0))"

definition days_in_month :: "int \<Rightarrow> nat \<Rightarrow> nat" where
  "days_in_month y m =
     (if m = 2 then (if leap_year y then 29 else 28)
      else if m = 4 \<or> m = 6 \<or> m = 9 \<or> m = 11 then 30 else 31)"

definition days_before_year :: "int \<Rightarrow> int" where
  "days_before_year y = 365 * y + (y - 1) div 4 - (y - 1) div 100 + (y - 1) div 400"

definition days_before_month :: "int \<Rightarrow> nat \<Rightarrow> nat" where
  "days_before_month y m = sum_list (map (days_in_month y) [1..<m])"

definition day_number :: "date \<Rightarrow> int" where
  "day_number d =
     days_before_year (year d) + int (days_before_month (year d) (month d)) + int (day d)"

definition valid_date :: "date \<Rightarrow> bool" where
  "valid_date d =
     (1 \<le> month d \<and> month d \<le> 12 \<and> 1 \<le> day d \<and> day d \<le> days_in_month (year d) (month d))"

definition msPerDay :: int where
  "msPerDay = 86400000"

text \<open>\<^verbatim>\<open>setDate\<close> with a day of the month \<open>n \<ge> 1\<close>, in the month \<open>m\<close> of the year
  \<open>y\<close>: a day past the end of the month carries into the months that follow.\<close>

function setDate :: "int \<Rightarrow> nat \<Rightarrow> nat \<Rightarrow> date" where
  "setDate y m n =
     (if n \<le> days_in_month y m then \<lparr>year = y, month = m, day = n\<rparr>
      else if m = 12 then setDate (y + 1) 1 (n - days_in_month y m)
      else setDate y (m + 1) (n - days_in_month y m))"
  by pat_completeness auto
termination
  by (relation "measure (\<lambda>(y, m, n). n)") (auto simp: days_in_month_def)

declare setDate.simps [simp del]

text \<open>The calendar date a number of whole days after or before a date: what the
  conversion between local time and UTC does to the date.\<close>

definition next_day :: "date \<Rightarrow> date" where
  "next_day d = setDate (year d) (month d) (day d + 1)"

definition prev_day :: "date \<Rightarrow> date" where
  "prev_day d =
     (if 1 < day d then d\<lparr>day := day d - 1\<rparr>
      else if month d = 1 then \<lparr>year = year d - 1, month = 12, day = 31\<rparr>
      else \<lparr>year = year d, month = month d - 1,
             day = days_in_month (year d) (month d - 1)\<rparr>)"

definition shift_days :: "int \<Rightarrow> date \<Rightarrow> date" where
  "shift_days k d = (if 0 \<le> k then (next_day ^^ nat k) d else (prev_day ^^ nat (- k)) d)"

text \<open>The date part of \<^verbatim>\<open>toISOString\<close>: four digits for the years 0 to 9999, a sign
  and six digits for the others.\<close>

definition toISODate :: "date \<Rightarrow> string" where
  "toISODate d =
     (if 0 \<le> year d \<and> year d \<le> 9999 then padStart 4 (CHR ''0'') (digits (nat (year d)))
      else (if year d < 0 then ''-'' else ''+'') @
           padStart 6 (CHR ''0'') (digits (nat \<bar>year d\<bar>))) @ ''-'' @
     padStart 2 (CHR ''0'') (digits (month d)) @ ''-'' @
     padStart 2 (CHR ''0'') (digits (day d))"

text \<open>
  \<^verbatim>\<open>getFechaVencimientoCAE\<close>. The day of the month is read and set in local time:
  \<^verbatim>\<open>setDate(getDate() + 10)\<close> moves the local date and keeps the local time of day. The
  new time value \<open>u\<close> is that local time less the offset of the zone; outside the range of
  \<open>8.64 * 10^15\<close> milliseconds around the epoch it is invalid and \<^verbatim>\<open>toISOString\<close>
  throws a \<^verbatim>\<open>RangeError\<close>. Otherwise \<^verbatim>\<open>toISOString\<close> prints the UTC date of \<open>u\<close>,
  which is the new local date moved by the whole days between local time and UTC.
\<close>

definition getFechaVencimientoCAE :: "env \<Rightarrow> exn + string" where
  "getFechaVencimientoCAE e =
     (let fecha = Date_now e;
          ms = Date_now_ms e;
          fecha = setDate (year fecha) (month fecha) (day fecha + 10);
          utc_ms = int ms - LocalTZA e fecha ms;
          u = (day_number fecha - day_number \<lparr>year = 1970, month = 1, day = 1\<rparr>) * msPerDay
                + utc_ms
      in if 8640000000000000 < \<bar>u\<bar> then Inl (Error ''Invalid time value'')
         else Inr (toISODate (shift_days (utc_ms div msPerDay) fecha)))"

definition getNextInvoiceNumber :: "env \<Rightarrow> string \<Rightarrow> rat" where
  "getNextInvoiceNumber e tipo =
     fadd (Math_floor (fmul (Math_random e) 1000)) 1"

subsection \<open>\<^verbatim>\<open>sendInvoice\<close>\<close>

text \<open>The body of the \<^verbatim>\<open>try\<close> block: the guard, then the pipeline. A call that
  throws ends it with the thrown value.\<close>

definition sendInvoice_try :: "env \<Rightarrow> AFIPConfig \<Rightarrow> InvoiceData \<Rightarrow> call list \<times> (exn + AFIPResponse)" where
  "sendInvoice_try e config invoiceData =
     (if numeroDocumento (cliente invoiceData) = [] \<or> length (items invoiceData) = 0 then
        ([], Inr \<lparr>success = False, cae = None, fechaVencimientoCae = None,
                  numeroComprobante = None, qrCode = None,
                  error = Some ''Datos incompletos: se requiere CUIT del cliente e items'',
                  observaciones = None\<rparr>)
      else
        case generateXMLRequest e config invoiceData of
          Inl ex \<Rightarrow> ([GenerateXMLRequest], Inl ex)
        | Inr xmlRequest \<Rightarrow>
            let signedXML = signXML xmlRequest;
                simulatedCAE = generateSimulatedCAE e
            in case getFechaVencimientoCAE e of
                 Inl ex \<Rightarrow>
                   ([GenerateXMLRequest, SignXML, GenerateSimulatedCAE,
                     GetFechaVencimientoCAE], Inl ex)
               | Inr fechaVencimiento \<Rightarrow>
                   (case generateQRCode e config invoiceData simulatedCAE of
                      Inl ex \<Rightarrow>
                        ([GenerateXMLRequest, SignXML, GenerateSimulatedCAE,
                          GetFechaVencimientoCAE, GenerateQRCode], Inl ex)
                    | Inr qr \<Rightarrow>
                        ([GenerateXMLRequest, SignXML, GenerateSimulatedCAE,
                          GetFechaVencimientoCAE, GenerateQRCode],
                         Inr \<lparr>success = True, cae = Some simulatedCAE,
                              fechaVencimientoCae = Some fechaVencimiento,
                              numeroComprobante =
                                Some (InvoiceData.numeroComprobante invoiceData),
                              qrCode = Some qr, error = None,
                              observaciones =
                                Some [''Comprobante autorizado correctamente'']\<rparr>)))"

text \<open>The \<^verbatim>\<open>catch\<close> clause turns whatever was thrown into a failure result.\<close>

definition sendInvoice_catch :: "exn \<Rightarrow> AFIPResponse" where
  "sendInvoice_catch ex =
     \<lparr>success = False, cae = None, fechaVencimientoCae = None, numeroComprobante = None,
      qrCode = None,
      error = Some (''Error al procesar la factura: '' @
                (case ex of Error message \<Rightarrow> message | Thrown \<Rightarrow> ''Error desconocido'')),
      observaciones = None\<rparr>"

text \<open>The result of the asynchronous method: \<open>Inr\<close> when its promise is fulfilled,
  \<open>Inl\<close> when it is rejected with a thrown value.\<close>

definition sendInvoice :: "env \<Rightarrow> AFIPConfig \<Rightarrow> InvoiceData \<Rightarrow> call list \<times> (exn + AFIPResponse)" where
  "sendInvoice e config invoiceData =
     (case sendInvoice_try e config invoiceData of
        (calls, Inl ex) \<Rightarrow> (calls, Inr (sendInvoice_catch ex))
      | (calls, Inr response) \<Rightarrow> (calls, Inr response))"

section \<open>The route handler (\<^verbatim>\<open>POST\<close> of the invoice route)\<close>

subsection \<open>The validation schema\<close>

text \<open>
  The request body is taken as already of the shape of \<^verbatim>\<open>InvoiceData\<close>; the schema's
  checks on the values are modelled, each failing check giving the dotted path of its
  field, in the order of the schema.
\<close>

definition is_digit :: "char \<Rightarrow> bool" where
  "is_digit c = (c \<in> set ''0123456789'')"

text \<open>The pattern \<^verbatim>\<open>/^\d{4}-\d{2}-\d{2}$/\<close>.\<close>

definition fecha_regex :: "string \<Rightarrow> bool" where
  "fecha_regex s =
     (case s of
        [y1, y2, y3, y4, h1, m1, m2, h2, d1, d2] \<Rightarrow>
          is_digit y1 \<and> is_digit y2 \<and> is_digit y3 \<and> is_digit y4 \<and> h1 = CHR ''-'' \<and>
          is_digit m1 \<and> is_digit m2 \<and> h2 = CHR ''-'' \<and> is_digit d1 \<and> is_digit d2
      | _ \<Rightarrow> False)"

definition issue :: "bool \<Rightarrow> string \<Rightarrow> string list" where
  "issue ok path = (if ok then [] else [path])"

definition InvoiceItemSchema :: "nat \<Rightarrow> InvoiceItem \<Rightarrow> string list" where
  "InvoiceItemSchema i item =
     (let p = ''items.'' @ digits i @ ''.'' in
      issue (1 \<le> length (descripcion item)) (p @ ''descripcion'') @
      issue (0 < cantidad item) (p @ ''cantidad'') @
      issue (0 < precioUnitario item) (p @ ''precioUnitario'') @
      issue (0 \<le> alicuotaIVA item \<and> alicuotaIVA item \<le> 100) (p @ ''alicuotaIVA'') @
      issue (0 \<le> importeIVA item) (p @ ''importeIVA'') @
      issue (0 < importeTotal item) (p @ ''importeTotal''))"

definition ClienteSchema :: "ClienteData \<Rightarrow> string list" where
  "ClienteSchema c =
     issue (1 \<le> length (tipoDocumento c)) ''cliente.tipoDocumento'' @
     issue (1 \<le> length (numeroDocumento c)) ''cliente.numeroDocumento'' @
     issue (1 \<le> length (razonSocial c)) ''cliente.razonSocial'' @
     issue (1 \<le> length (domicilio c)) ''cliente.domicilio'' @
     issue (1 \<le> length (condicionIVA c)) ''cliente.condicionIVA''"

definition InvoiceSchema :: "InvoiceData \<Rightarrow> string list" where
  "InvoiceSchema d =
     issue (tipoComprobante d \<in> set [''factura'', ''nota_credito'', ''nota_debito''])
       ''tipoComprobante'' @
     issue (0 < InvoiceData.puntoVenta d) ''puntoVenta'' @
     issue (0 < InvoiceData.numeroComprobante d) ''numeroComprobante'' @
     issue (fecha_regex (fecha d)) ''fecha'' @
     ClienteSchema (cliente d) @
     issue (1 \<le> length (items d)) ''items'' @
     concat (map (\<lambda>(i, item). InvoiceItemSchema i item) (enumerate 0 (items d))) @
     issue (0 < subtotal d) ''subtotal'' @
     issue (0 \<le> totalIVA d) ''totalIVA'' @
     issue (0 < total d) ''total''"

subsection \<open>The handler\<close>

record ResponseData =
  data_cae :: "string option"
  data_fechaVencimientoCae :: "string option"
  data_numeroComprobante :: "rat option"
  data_qrCode :: "string option"
  data_observaciones :: "string list option"

record PostResponse =
  status :: nat
  body_success :: bool
  body_error :: "string option"
  body_details :: "string list option"
  body_data :: "ResponseData option"

definition error_response :: "nat \<Rightarrow> string \<Rightarrow> PostResponse" where
  "error_response st msg =
     \<lparr>status = st, body_success = False, body_error = Some msg,
      body_details = None, body_data = None\<rparr>"

text \<open>
  The body of the request arrives as \<open>Inr\<close> of the parsed invoice, or as \<open>Inl\<close> when
  \<^verbatim>\<open>request.json()\<close> throws. The handler returns the calls it made into the service
  together with its response.
\<close>

definition POST :: "env \<Rightarrow> AFIPConfig \<Rightarrow> exn + InvoiceData \<Rightarrow> call list \<times> PostResponse" where
  "POST e config body =
     (case body of
        Inl ex \<Rightarrow> ([], error_response 500 ''Error interno del servidor'')
      | Inr invoiceData \<Rightarrow>
          if InvoiceSchema invoiceData \<noteq> [] then
            ([], \<lparr>status = 400, body_success = False,
                  body_error = Some (''Datos de factura inv'' @ [CHR 0xC3, CHR 0xA1] @ ''lidos''),
                  body_details = Some (InvoiceSchema invoiceData), body_data = None\<rparr>)
          else
            let calculatedSubtotal =
                  foldl (\<lambda>sum item. fadd sum (fmul (cantidad item) (precioUnitario item))) 0
                    (items invoiceData);
                calculatedIVA =
                  foldl (\<lambda>sum item. fadd sum (importeIVA item)) 0 (items invoiceData)
            in
            if binary64 (1/100) < \<bar>fsub calculatedSubtotal (subtotal invoiceData)\<bar> then
              ([], error_response 400 ''El subtotal calculado no coincide con el enviado'')
            else if binary64 (1/100) < \<bar>fsub calculatedIVA (totalIVA invoiceData)\<bar> then
              ([], error_response 400 ''El total de IVA calculado no coincide con el enviado'')
            else
              case sendInvoice e config invoiceData of
                (calls, Inl ex) \<Rightarrow>
                  (SendInvoice # calls, error_response 500 ''Error interno del servidor'')
              | (calls, Inr afipResponse) \<Rightarrow>
                  if \<not> success afipResponse then
                    (SendInvoice # calls,
                     error_response 500
                       (case error afipResponse of
                          None \<Rightarrow> ''Error al procesar la factura en AFIP''
                        | Some msg \<Rightarrow>
                            if msg = [] then ''Error al procesar la factura en AFIP'' else msg))
                  else
                    (SendInvoice # calls,
                     \<lparr>status = 200, body_success = True, body_error = None,
                      body_details = None,
                      body_data = Some
                        \<lparr>data_cae = cae afipResponse,
                         data_fechaVencimientoCae = fechaVencimientoCae afipResponse,
                         data_numeroComprobante = AFIPResponse.numeroComprobante afipResponse,
                         data_qrCode = qrCode afipResponse,
                         data_observaciones = AFIPResponse.observaciones afipResponse\<rparr>\<rparr>))"

section \<open>Example inputs\<close>

text \<open>The scenario invoice: one line of quantity 2 at unit price 100 and 21% tax, net
  200.00, tax 42.00, total 242.00, dated 2024-01-01.\<close>

definition line0 :: InvoiceItem where
  "line0 = \<lparr>item_id = ''1'', descripcion = ''Servicio'', cantidad = 2, precioUnitario = 100,
     alicuotaIVA = 21, importeIVA = 42, importeTotal = 242\<rparr>"

definition cliente0 :: ClienteData where
  "cliente0 = \<lparr>tipoDocumento = ''CUIT'', numeroDocumento = ''30712345678'',
     razonSocial = ''ACME SA'', domicilio = ''Av. Siempre Viva 742'',
     condicionIVA = ''Responsable Inscripto''\<rparr>"

definition invoice0 :: InvoiceData where
  "invoice0 = \<lparr>tipoComprobante = ''factura'', puntoVenta = 1, numeroComprobante = 7,
     fecha = ''2024-01-01'', cliente = cliente0, items = [line0],
     subtotal = 200, totalIVA = 42, total = 242, observaciones = None\<rparr>"

text \<open>A second line, of quantity 1 at unit price 50 and 10.5% tax, and the invoice of both
  lines.\<close>

definition line1 :: InvoiceItem where
  "line1 = \<lparr>item_id = ''2'', descripcion = ''Envio'', cantidad = 1, precioUnitario = 50,
     alicuotaIVA = 21/2, importeIVA = 21/4, importeTotal = 221/4\<rparr>"

definition invoice2 :: InvoiceData where
  "invoice2 = invoice0\<lparr>items := [line0, line1], subtotal := 250, totalIVA := 189/4,
     total := 1189/4\<rparr>"

text \<open>The scenario invoice with a total that is off by 1.00 from the sum of its net and
  tax amounts.\<close>

definition invoice_wrong_total :: InvoiceData where
  "invoice_wrong_total = invoice0\<lparr>total := 243\<rparr>"

text \<open>A line of quantity 1 at unit price 2.0625 and 21% tax, as entered in the form before
  its derived fields are recomputed.\<close>

definition line_frac :: InvoiceItem where
  "line_frac = \<lparr>item_id = ''1'', descripcion = ''Cable'', cantidad = 1,
     precioUnitario = 33/16, alicuotaIVA = 21, importeIVA = 0, importeTotal = 0\<rparr>"

text \<open>Three lines as the form holds them after recomputation: half a unit at 2.29 (the
  number nearest to that decimal), one unit at 17 and one unit at 20, each at 21% tax.\<close>

definition lines3 :: "InvoiceItem list" where
  "lines3 = recompute_items
     [\<lparr>item_id = ''1'', descripcion = ''Cable'', cantidad = 1/2,
        precioUnitario = binary64 (229/100), alicuotaIVA = 21, importeIVA = 0,
        importeTotal = 0\<rparr>,
      \<lparr>item_id = ''2'', descripcion = ''Router'', cantidad = 1, precioUnitario = 17,
        alicuotaIVA = 21, importeIVA = 0, importeTotal = 0\<rparr>,
      \<lparr>item_id = ''3'', descripcion = ''Switch'', cantidad = 1, precioUnitario = 20,
        alicuotaIVA = 21, importeIVA = 0, importeTotal = 0\<rparr>]"

definition config0 :: AFIPConfig where
  "config0 = \<lparr>cuit = ''20123456789'', puntoVenta = 1, certificatePath = [],
     certificatePassword = [],
     endpoint = ''https://wswhomo.afip.gov.ar/wsfev1/service.asmx'', ambiente = Testing\<rparr>"

text \<open>An environment in which both library calls succeed, \<^verbatim>\<open>Math.random()\<close> returns
  one half, the clock reads noon of 2024-03-15 and the zone is UTC.\<close>

definition env0 :: env where
  "env0 = \<lparr>Math_random = 1/2, Date_now = \<lparr>year = 2024, month = 3, day = 15\<rparr>,
     Date_now_ms = 43200000, LocalTZA = (\<lambda>local ms. 0),
     buildObject = (\<lambda>doc. Inr ''<soap:Envelope/>''),
     toDataURL = (\<lambda>qrString. Inr ''data:image/png;base64,'')\<rparr>"

text \<open>The same environment in the zone of Buenos Aires, three hours behind UTC, with the
  clock at ten in the evening, local time, of 2024-03-15.\<close>

definition env_ar :: env where
  "env_ar = env0\<lparr>Date_now_ms := 79200000, LocalTZA := (\<lambda>local ms. - 10800000)\<rparr>"

section \<open>Facts about the rounding\<close>

lemma floor_divide_numeral_rat [simp]:
  "\<lfloor>numeral a / numeral b :: rat\<rfloor> = numeral a div numeral b"
  by (metis floor_divide_of_int_eq of_int_numeral)

lemma bitlen_powi_bounds:
  assumes "0 < (p::int)"
  shows "(2::rat) powi (bitlen p - 1) \<le> of_int p" "(of_int p :: rat) < 2 powi (bitlen p)"
proof -
  from bitlen_bounds[OF assms]
  have a: "2 ^ nat (bitlen p - 1) \<le> p" and b: "p < 2 ^ nat (bitlen p)"
    by auto
  have ge1: "1 \<le> bitlen p"
    using assms bitlen_eq_zero_iff[of p] bitlen_nonneg[of p] by linarith
  have "(of_int (2 ^ nat (bitlen p - 1)) :: rat) \<le> of_int p"
    using a by (simp only: of_int_le_iff)
  then show "(2::rat) powi (bitlen p - 1) \<le> of_int p"
    using ge1 by (simp add: power_int_def)
  have "(of_int p :: rat) < of_int (2 ^ nat (bitlen p))"
    using b by (simp only: of_int_less_iff)
  then show "(of_int p :: rat) < 2 powi (bitlen p)"
    using ge1 by (simp add: power_int_def)
qed

lemma ilog2_bounds:
  assumes "0 < a"
  shows "2 powi (ilog2 a) \<le> a \<and> a < 2 powi (ilog2 a + 1)"
proof -
  obtain p q where pq: "quotient_of a = (p, q)" by (cases "quotient_of a")
  have q: "0 < q" using quotient_of_denom_pos[OF pq] .
  have a: "a = of_int p / of_int q" using quotient_of_div[OF pq] .
  have p: "0 < p" using assms q unfolding a by (simp add: zero_less_divide_iff)
  define d where "d = bitlen p - bitlen q"
  have qr: "(0::rat) < of_int q" using q by simp
  have up: "a < 2 powi (d + 1)"
  proof -
    have "of_int p < (2::rat) powi (bitlen p)" using bitlen_powi_bounds[OF p] by simp
    also have "\<dots> = 2 powi (d + 1) * 2 powi (bitlen q - 1)"
      by (simp add: d_def flip: power_int_add)
    also have "\<dots> \<le> 2 powi (d + 1) * of_int q"
      using bitlen_powi_bounds(1)[OF q] by (intro mult_left_mono) auto
    finally show ?thesis unfolding a using qr by (simp add: pos_divide_less_eq)
  qed
  have lo: "2 powi (d - 1) \<le> a"
  proof -
    have "2 powi (d - 1) * of_int q \<le> 2 powi (d - 1) * (2::rat) powi (bitlen q)"
      using bitlen_powi_bounds(2)[OF q] by (intro mult_left_mono) auto
    also have "\<dots> = 2 powi (bitlen p - 1)"
      by (simp add: d_def flip: power_int_add)
    also have "\<dots> \<le> of_int p" using bitlen_powi_bounds(1)[OF p] .
    finally show ?thesis unfolding a using qr by (simp add: pos_le_divide_eq)
  qed
  show ?thesis
  proof (cases "a < 2 powi d")
    case True
    then have "ilog2 a = d - 1" by (simp add: ilog2_def pq d_def Let_def)
    with True lo show ?thesis by simp
  next
    case False
    then have "ilog2 a = d" by (simp add: ilog2_def pq d_def Let_def)
    with False up show ?thesis by simp
  qed
qed

lemma ilog2_unique:
  assumes "2 powi k \<le> a" "a < 2 powi (k + 1)"
  shows "ilog2 a = k"
proof -
  have "(0::rat) < 2 powi k" by (rule zero_less_power_int) simp
  then have pos: "0 < a" using assms(1) by linarith
  from ilog2_bounds[OF pos]
  have b: "2 powi (ilog2 a) \<le> a" "a < 2 powi (ilog2 a + 1)" by auto
  have "(2::rat) powi k < 2 powi (ilog2 a + 1)" using assms(1) b(2) by linarith
  then have 1: "k < ilog2 a + 1"
    by (metis not_le power_int_increasing one_le_numeral)
  have "(2::rat) powi (ilog2 a) < 2 powi (k + 1)" using assms(2) b(1) by linarith
  then have 2: "ilog2 a < k + 1"
    by (metis not_le power_int_increasing one_le_numeral)
  from 1 2 show ?thesis by linarith
qed

text \<open>Rounding a value whose binade \<open>k\<close> is known: the rule used to evaluate
  \<open>binary64\<close> on concrete numbers.\<close>

lemma binary64_eval:
  assumes "2 powi k \<le> \<bar>x\<bar>" "\<bar>x\<bar> < 2 powi (k + 1)" "- 1022 \<le> k"
    and "of_int (round_even (x / 2 powi (k - 52))) * 2 powi (k - 52) = y"
  shows "binary64 x = y"
proof -
  have "ilog2 \<bar>x\<bar> = k" using assms(1,2) by (rule ilog2_unique)
  moreover have "x \<noteq> 0"
  proof
    assume "x = 0"
    then have "2 powi k \<le> (0::rat)" using assms(1) by simp
    moreover have "(0::rat) < 2 powi k" by (rule zero_less_power_int) simp
    ultimately show False by linarith
  qed
  moreover have "max (k - 52) (- 1074) = k - 52" using assms(3) by simp
  ultimately show ?thesis using assms(4) by (simp add: binary64_def Let_def)
qed

lemma round_even_le: "of_int (round_even y) \<le> y + 1/2"
proof -
  define f where "f = \<lfloor>y\<rfloor>"
  have "of_int f \<le> y" "y < of_int f + 1" unfolding f_def by linarith+
  then show ?thesis
    by (auto simp: round_even_def Let_def simp flip: f_def)
qed

lemma round_even_nonneg: "0 \<le> y \<Longrightarrow> 0 \<le> round_even y"
  by (auto simp: round_even_def Let_def)

lemma round_even_of_int [simp]: "round_even (of_int n) = n"
  by (simp add: round_even_def Let_def)

lemma binary64_nonneg: "0 \<le> x \<Longrightarrow> 0 \<le> binary64 x"
  by (simp add: binary64_def Let_def round_even_nonneg)

text \<open>The rounding error is at most half a unit in the last place.\<close>

lemma binary64_upper:
  assumes "0 \<le> x"
  shows "binary64 x \<le> x + x * 2 powi (- 53) + 2 powi (- 1075)"
proof (cases "x = 0")
  case True
  then show ?thesis by (simp add: binary64_def)
next
  case False
  with assms have pos: "0 < x" by simp
  define e where "e = max (ilog2 \<bar>x\<bar> - 52) (- 1074)"
  have e2: "(0::rat) < 2 powi e" by simp
  have "binary64 x = of_int (round_even (x / 2 powi e)) * 2 powi e"
    using False by (simp add: binary64_def Let_def e_def)
  also have "\<dots> \<le> (x / 2 powi e + 1/2) * 2 powi e"
    using round_even_le[of "x / 2 powi e"] e2 by (intro mult_right_mono) auto
  also have "\<dots> = x + 2 powi (e - 1)"
    by (simp add: algebra_simps power_int_diff)
  finally have 1: "binary64 x \<le> x + 2 powi (e - 1)" .
  have "(2::rat) powi (e - 1) \<le> x * 2 powi (- 53) + 2 powi (- 1075)"
  proof (cases "ilog2 \<bar>x\<bar> - 52 \<le> - 1074")
    case True
    then have "e = - 1074" by (simp add: e_def)
    then have "(2::rat) powi (e - 1) = 2 powi (- 1075)" by simp
    moreover have "0 \<le> x * 2 powi (- 53)" using assms by simp
    ultimately show ?thesis by linarith
  next
    case False
    then have "e = ilog2 x - 52" using pos by (simp add: e_def)
    then have "(2::rat) powi (e - 1) = 2 powi (ilog2 x) * 2 powi (- 53)"
      using power_int_add[of "2::rat" "ilog2 x" "- 53"] by simp
    also have "\<dots> \<le> x * 2 powi (- 53)"
      using ilog2_bounds[OF pos] by (intro mult_right_mono) auto
    finally have "(2::rat) powi (e - 1) \<le> x * 2 powi (- 53)" .
    moreover have "(0::rat) \<le> 2 powi (- 1075)" by (rule zero_le_power_int) simp
    ultimately show ?thesis by linarith
  qed
  with 1 show ?thesis by linarith
qed

text \<open>A significand below \<open>2^53\<close> with an exponent in range is a binary64 value:
  rounding leaves it unchanged. So are the integers below \<open>2^53\<close>.\<close>

lemma binary64_scaled:
  assumes "m \<noteq> 0" "\<bar>m\<bar> < 2 ^ 53" "- 1074 \<le> e"
  shows "binary64 (of_int m * 2 powi e) = of_int m * 2 powi e"
proof -
  define x :: rat where "x = of_int m * 2 powi e"
  have p2: "(0::rat) < 2 powi e" by (rule zero_less_power_int) simp
  have ax: "\<bar>x\<bar> = of_int \<bar>m\<bar> * 2 powi e"
    using p2 by (simp add: x_def abs_mult)
  have xpos: "0 < \<bar>x\<bar>" using assms(1) p2 by (simp add: x_def)
  define k where "k = ilog2 \<bar>x\<bar>"
  from ilog2_bounds[OF xpos] have lo: "2 powi k \<le> \<bar>x\<bar>" by (simp add: k_def)
  have "(of_int \<bar>m\<bar> :: rat) < of_int (2 ^ 53)" using assms(2) by (simp only: of_int_less_iff)
  then have "(of_int \<bar>m\<bar> :: rat) < 2 powi 53" by simp
  then have "\<bar>x\<bar> < 2 powi 53 * 2 powi e" unfolding ax using p2 by (intro mult_strict_right_mono)
  also have "\<dots> = 2 powi (53 + e)" by (simp add: power_int_add)
  finally have "(2::rat) powi k < 2 powi (53 + e)" using lo by linarith
  then have "k < 53 + e" by (metis not_le power_int_increasing one_le_numeral)
  define E where "E = max (k - 52) (- 1074)"
  have Ee: "E \<le> e" using \<open>k < 53 + e\<close> assms(3) by (simp add: E_def)
  define d where "d = nat (e - E)"
  have e: "e = E + int d" using Ee by (simp add: d_def)
  have pe: "(2::rat) powi e = 2 powi E * 2 ^ d"
    unfolding e by (simp add: power_int_add)
  have "x / 2 powi E = of_int (m * 2 ^ d)"
    by (simp add: x_def pe)
  then have "round_even (x / 2 powi E) = m * 2 ^ d" by (simp only: round_even_of_int)
  moreover have "x \<noteq> 0" using xpos by auto
  ultimately have "binary64 x = of_int (m * 2 ^ d) * 2 powi E"
    by (simp add: binary64_def Let_def E_def k_def)
  also have "\<dots> = x" by (simp add: x_def pe)
  finally show ?thesis by (simp add: x_def)
qed

lemma binary64_of_int:
  assumes "\<bar>n\<bar> < 2 ^ 53"
  shows "binary64 (of_int n) = of_int n"
proof (cases "n = 0")
  case True
  then show ?thesis by (simp add: binary64_def)
next
  case False
  from binary64_scaled[OF False assms, of 0] show ?thesis by simp
qed

lemma binary64_numeral:
  "numeral n < (2::int) ^ 53 \<Longrightarrow> binary64 (numeral n) = numeral n"
  using binary64_of_int[of "numeral n"] by simp

lemma binary64_0 [simp]: "binary64 0 = 0"
  by (simp add: binary64_def)

lemma binary64_1 [simp]: "binary64 1 = 1"
  using binary64_of_int[of 1] by simp

lemma binary64_half: "binary64 (1/2) = 1/2"
  using binary64_scaled[of 1 "- 1"] by (simp add: power_int_minus)

text \<open>The largest binary64 value below 1 is \<open>1 - 2^-53\<close>.\<close>

lemma double_below_one:
  assumes "binary64 r = r" "0 \<le> r" "r < 1"
  shows "r \<le> 1 - 2 powi (- 53)"
proof (cases "r = 0")
  case True
  then show ?thesis by (simp add: power_int_minus)
next
  case False
  with assms have pos: "0 < r" by simp
  define k where "k = ilog2 r"
  from ilog2_bounds[OF pos] have lo: "2 powi k \<le> r" and up: "r < 2 powi (k + 1)"
    by (simp_all add: k_def)
  have "(2::rat) powi k < 2 powi 0" using lo assms(3) by simp
  then have k0: "k < 0" by (metis not_le power_int_increasing one_le_numeral)
  show ?thesis
  proof (cases "k = - 1")
    case True
    define M where "M = round_even (r / 2 powi (- 53))"
    have r: "r = of_int M * 2 powi (- 53)"
      using assms(1) False pos True by (simp add: binary64_def Let_def k_def M_def)
    have "of_int M * (2::rat) powi (- 53) < 1" using assms(3) r by simp
    then have "(of_int M :: rat) < 2 ^ 53"
      by (simp add: power_int_minus field_simps)
    then have "(of_int M :: rat) < of_int (2 ^ 53)" by simp
    then have "M < 2 ^ 53" by (simp only: of_int_less_iff)
    then have "M \<le> 2 ^ 53 - 1" by simp
    then have "(of_int M :: rat) \<le> of_int (2 ^ 53 - 1)" by (simp only: of_int_le_iff)
    then have "of_int M * (2::rat) powi (- 53) \<le> of_int (2 ^ 53 - 1) * 2 powi (- 53)"
      by (intro mult_right_mono) auto
    then show ?thesis unfolding r[symmetric] by (simp add: power_int_minus)
  next
    case False
    with k0 have "k + 1 \<le> - 1" by simp
    then have "(2::rat) powi (k + 1) \<le> 2 powi (- 1)"
      by (intro power_int_increasing) auto
    with up have "r < 1/2" by (simp add: power_int_minus)
    then show ?thesis by (simp add: power_int_minus)
  qed
qed

section \<open>Facts about the calendar\<close>

text \<open>The number of the first day of a year grows by the length of the year.\<close>

lemma div_step:
  fixes y k :: int
  assumes "0 < k"
  shows "y div k - (y - 1) div k = (if y mod k = 0 then 1 else 0)"
proof (cases "y mod k = 0")
  case True
  then obtain q where y: "y = k * q" by (metis mod_eq_0_iff_dvd dvd_def)
  have "y - 1 = (q - 1) * k + (k - 1)" by (simp add: y algebra_simps)
  then have "(y - 1) div k = q - 1 + (k - 1) div k"
    using assms by (metis add.commute div_mult_self2 less_irrefl mult.commute)
  moreover have "(k - 1) div k = 0" using assms by simp
  moreover have "y div k = q" using assms y by simp
  ultimately show ?thesis using True by simp
next
  case False
  define r where "r = y mod k"
  define q where "q = y div k"
  have "0 \<le> r" "r < k" using assms by (simp_all add: r_def)
  with False have r: "0 < r" "r < k" by (simp_all add: r_def)
  have y: "y = q * k + r" by (simp add: r_def q_def)
  have "y - 1 = q * k + (r - 1)" by (simp add: y)
  then have "(y - 1) div k = q + (r - 1) div k"
    using assms by (metis add.commute div_mult_self2 less_irrefl mult.commute)
  moreover have "(r - 1) div k = 0" using r by simp
  ultimately show ?thesis using False by (simp add: q_def)
qed

lemma days_before_year_Suc:
  "days_before_year (y + 1) = days_before_year y + (if leap_year y then 366 else 365)"
proof -
  have a: "y div 4 - (y - 1) div 4 = (if y mod 4 = 0 then 1 else 0)" by (rule div_step) simp
  have b: "y div 100 - (y - 1) div 100 = (if y mod 100 = 0 then 1 else 0)" by (rule div_step) simp
  have c: "y div 400 - (y - 1) div 400 = (if y mod 400 = 0 then 1 else 0)" by (rule div_step) simp
  have d: "y mod 400 = 0 \<Longrightarrow> y mod 100 = 0"
  proof -
    assume "y mod 400 = 0"
    then have "400 dvd y" by (simp add: mod_eq_0_iff_dvd)
    moreover have "(100::int) dvd 400" by simp
    ultimately have "100 dvd y" by (rule dvd_trans[rotated])
    then show ?thesis by (simp add: mod_eq_0_iff_dvd)
  qed
  have e: "y mod 100 = 0 \<Longrightarrow> y mod 4 = 0"
  proof -
    assume "y mod 100 = 0"
    then have "100 dvd y" by (simp add: mod_eq_0_iff_dvd)
    moreover have "(4::int) dvd 100" by simp
    ultimately have "4 dvd y" by (rule dvd_trans[rotated])
    then show ?thesis by (simp add: mod_eq_0_iff_dvd)
  qed
  have "days_before_year (y + 1) - days_before_year y =
      365 + (y div 4 - (y - 1) div 4) - (y div 100 - (y - 1) div 100) +
      (y div 400 - (y - 1) div 400)"
    by (simp add: days_before_year_def)
  also have "\<dots> = 365 + (if y mod 4 = 0 then 1 else 0) - (if y mod 100 = 0 then 1 else 0) +
      (if y mod 400 = 0 then 1 else 0)"
    by (simp only: a b c)
  also have "\<dots> = (if leap_year y then 366 else 365)"
    by (cases "y mod 4 = 0"; cases "y mod 100 = 0"; cases "y mod 400 = 0")
      (use d e in \<open>simp_all add: leap_year_def\<close>)
  finally show ?thesis by simp
qed

lemma days_before_month_1 [simp]: "days_before_month y (Suc 0) = 0"
  by (simp add: days_before_month_def)

lemma days_before_month_Suc:
  "1 \<le> m \<Longrightarrow> days_before_month y (Suc m) = days_before_month y m + days_in_month y m"
  by (simp add: days_before_month_def)

lemma days_before_month_12:
  "days_before_month y 12 = (if leap_year y then 335 else 334)"
  by (simp add: days_before_month_def days_in_month_def upt_rec_numeral eval_nat_numeral)

lemma days_in_month_pos: "0 < days_in_month y m"
  by (simp add: days_in_month_def)

text \<open>Carrying a day of the month past the ends of the months adds up the days: the date
  that \<open>setDate\<close> returns is a valid date with the day number that the day count gives.\<close>

lemma setDate_day_number:
  "1 \<le> m \<Longrightarrow> m \<le> 12 \<Longrightarrow> 1 \<le> n \<Longrightarrow>
     valid_date (setDate y m n) \<and>
     day_number (setDate y m n) = days_before_year y + int (days_before_month y m) + int n"
proof (induction y m n rule: setDate.induct)
  case (1 y m n)
  show ?case
  proof (cases "n \<le> days_in_month y m")
    case True
    then show ?thesis using "1.prems"
      by (simp add: setDate.simps[of y m n] valid_date_def day_number_def)
  next
    case False
    then have gt: "days_in_month y m < n" by simp
    show ?thesis
    proof (cases "m = 12")
      case True
      have d12: "days_in_month y m = 31" using True by (simp add: days_in_month_def)
      have st: "setDate y m n = setDate (y + 1) 1 (n - 31)"
        using False True d12 by (subst setDate.simps) simp
      have ih: "valid_date (setDate (y + 1) 1 (n - 31)) \<and>
          day_number (setDate (y + 1) 1 (n - 31)) =
          days_before_year (y + 1) + int (days_before_month (y + 1) 1) + int (n - 31)"
        using "1.IH"(1)[OF False True] gt d12 by simp
      have "int (days_before_month y m) = (if leap_year y then 335 else 334)"
        using True by (simp add: days_before_month_12)
      then show ?thesis
        using ih gt d12 unfolding st by (simp add: days_before_year_Suc)
    next
      case m12: False
      have st: "setDate y m n = setDate y (m + 1) (n - days_in_month y m)"
        using False m12 by (subst setDate.simps) simp
      have ih: "valid_date (setDate y (m + 1) (n - days_in_month y m)) \<and>
          day_number (setDate y (m + 1) (n - days_in_month y m)) =
          days_before_year y + int (days_before_month y (m + 1)) +
          int (n - days_in_month y m)"
        using "1.IH"(2)[OF False m12] "1.prems" gt m12 by simp
      have "days_before_month y (m + 1) = days_before_month y m + days_in_month y m"
        using days_before_month_Suc[of m y] "1.prems" by simp
      then show ?thesis
        using ih gt unfolding st by simp
    qed
  qed
qed

lemma setDate_plus:
  assumes "valid_date d" "0 < k"
  shows "valid_date (setDate (year d) (month d) (day d + k)) \<and>
    day_number (setDate (year d) (month d) (day d + k)) = day_number d + int k"
  using setDate_day_number[of "month d" "day d + k" "year d"] assms
  by (simp add: valid_date_def day_number_def)

lemma next_day_number:
  "valid_date d \<Longrightarrow> valid_date (next_day d) \<and> day_number (next_day d) = day_number d + 1"
  using setDate_plus[of d 1] by (simp add: next_day_def)

lemma prev_day_number:
  assumes "valid_date d"
  shows "valid_date (prev_day d) \<and> day_number (prev_day d) = day_number d - 1"
proof (cases "1 < day d")
  case True
  then have "1 \<le> day d - 1" "day d - 1 \<le> day d" "int (day d - 1) = int (day d) - 1"
    by simp_all
  then show ?thesis using assms True
    by (auto simp: prev_day_def valid_date_def day_number_def)
next
  case False
  with assms have d1: "day d = 1" by (simp add: valid_date_def)
  show ?thesis
  proof (cases "month d = 1")
    case True
    have "days_before_year (year d) = days_before_year (year d - 1) +
        (if leap_year (year d - 1) then 366 else 365)"
      using days_before_year_Suc[of "year d - 1"] by simp
    then show ?thesis using d1 True
      by (simp add: prev_day_def valid_date_def day_number_def days_before_month_12
          days_in_month_def)
  next
    case False
    with assms obtain j where j: "month d = Suc j" "1 \<le> j" "j \<le> 11"
      by (cases "month d") (auto simp: valid_date_def)
    show ?thesis using d1 False j
      by (simp add: prev_day_def valid_date_def day_number_def days_before_month_Suc
          days_in_month_pos Suc_leI)
  qed
qed

lemma funpow_next_day:
  "valid_date d \<Longrightarrow> valid_date ((next_day ^^ n) d) \<and>
     day_number ((next_day ^^ n) d) = day_number d + int n"
  by (induction n) (simp_all add: next_day_number)

lemma funpow_prev_day:
  "valid_date d \<Longrightarrow> valid_date ((prev_day ^^ n) d) \<and>
     day_number ((prev_day ^^ n) d) = day_number d - int n"
  by (induction n) (simp_all add: prev_day_number)

lemma shift_days_number:
  "valid_date d \<Longrightarrow> valid_date (shift_days k d) \<and>
     day_number (shift_days k d) = day_number d + k"
  using funpow_next_day[of d "nat k"] funpow_prev_day[of d "nat (- k)"]
  by (simp add: shift_days_def)

lemma shift_days_0 [simp]: "shift_days 0 d = d"
  by (simp add: shift_days_def)

text \<open>A valid date is determined by its day number.\<close>

lemma days_before_month_mono:
  "m \<le> m' \<Longrightarrow> days_before_month y m \<le> days_before_month y m'"
proof (induction m' rule: dec_induct)
  case base
  then show ?case by simp
next
  case (step n)
  show ?case
  proof (cases "1 \<le> n")
    case True
    from days_before_month_Suc[OF True, of y] step.IH show ?thesis by simp
  next
    case False
    then have "n = 0" by simp
    with step.hyps have "m = 0" by simp
    then show ?thesis by (simp add: days_before_month_def)
  qed
qed

lemma days_before_month_13:
  "days_before_month y 13 = (if leap_year y then 366 else 365)"
proof -
  have "days_before_month y (Suc 12) = days_before_month y 12 + days_in_month y 12"
    by (rule days_before_month_Suc) simp
  then show ?thesis by (simp add: days_before_month_12 days_in_month_def)
qed

lemma day_number_bounds:
  assumes "valid_date d"
  shows "days_before_year (year d) < day_number d"
    and "day_number d \<le> days_before_year (year d + 1)"
proof -
  from assms have m: "1 \<le> month d" "month d \<le> 12" and dd: "1 \<le> day d"
    "day d \<le> days_in_month (year d) (month d)" by (simp_all add: valid_date_def)
  show "days_before_year (year d) < day_number d"
    using dd by (simp add: day_number_def)
  have "days_before_month (year d) (month d) + day d \<le>
      days_before_month (year d) (Suc (month d))"
    using days_before_month_Suc[OF m(1), of "year d"] dd by simp
  also have "\<dots> \<le> days_before_month (year d) 13"
    by (rule days_before_month_mono) (use m in simp)
  finally have "days_before_month (year d) (month d) + day d \<le>
      (if leap_year (year d) then 366 else 365)"
    by (simp add: days_before_month_13)
  then have "int (days_before_month (year d) (month d)) + int (day d) \<le>
      (if leap_year (year d) then 366 else 365)"
    by (auto split: if_splits)
  then show "day_number d \<le> days_before_year (year d + 1)"
    by (simp add: day_number_def days_before_year_Suc)
qed

lemma days_before_year_mono:
  "y \<le> y' \<Longrightarrow> days_before_year y \<le> days_before_year y'"
proof (induction y' rule: int_ge_induct)
  case base
  then show ?case by simp
next
  case (step i)
  then show ?case using days_before_year_Suc[of i] by (simp split: if_splits)
qed

lemma day_number_year:
  assumes "valid_date a" "valid_date b" "day_number a = day_number b"
  shows "year a = year b"
proof (rule ccontr)
  assume ne: "year a \<noteq> year b"
  have less: "False" if v: "valid_date p" "valid_date q" and e: "day_number p = day_number q"
    and l: "year p < year q" for p q
  proof -
    have "day_number p \<le> days_before_year (year p + 1)" using day_number_bounds(2)[OF v(1)] .
    also have "\<dots> \<le> days_before_year (year q)" by (rule days_before_year_mono) (use l in simp)
    also have "\<dots> < day_number q" using day_number_bounds(1)[OF v(2)] .
    finally show False using e by simp
  qed
  from ne consider "year a < year b" | "year b < year a" by linarith
  then show False
    using less[OF assms(1,2) assms(3)] less[OF assms(2,1) assms(3)[symmetric]] by cases auto
qed

lemma day_number_inject:
  assumes "valid_date a" "valid_date b" "day_number a = day_number b"
  shows "a = b"
proof -
  have y: "year a = year b" using assms by (rule day_number_year)
  have e: "days_before_month (year a) (month a) + day a =
      days_before_month (year a) (month b) + day b"
    using assms(3) y by (simp add: day_number_def)
  have less: "False" if v: "valid_date p" "valid_date q" and yy: "year p = year a" "year q = year a"
    and e: "days_before_month (year a) (month p) + day p =
      days_before_month (year a) (month q) + day q" and l: "month p < month q" for p q
  proof -
    from v have m: "1 \<le> month p" and dd: "day p \<le> days_in_month (year a) (month p)"
      and dq: "1 \<le> day q" by (simp_all add: valid_date_def yy)
    have "days_before_month (year a) (month p) + day p \<le>
        days_before_month (year a) (Suc (month p))"
      using days_before_month_Suc[OF m, of "year a"] dd by simp
    also have "\<dots> \<le> days_before_month (year a) (month q)"
      by (rule days_before_month_mono) (use l in simp)
    also have "\<dots> < days_before_month (year a) (month q) + day q" using dq by simp
    finally show False using e by simp
  qed
  have m: "month a = month b"
  proof (rule ccontr)
    assume "month a \<noteq> month b"
    then consider "month a < month b" | "month b < month a" by linarith
    then show False
      using less[OF assms(1,2) refl y[symmetric] e] less[OF assms(2,1) y[symmetric] refl e[symmetric]]
      by cases auto
  qed
  with e have "day a = day b" by simp
  with y m show ?thesis by simp
qed

section \<open>Evaluating the service at the example inputs\<close>

lemma digits_numeral [simp]:
  "digits (numeral k) =
     (if numeral k < (10::nat) then [digit_char (numeral k)]
      else digits (numeral k div 10) @ [digit_char (numeral k mod 10)])"
  by (rule digits.simps)

lemma digits_0 [simp]: "digits 0 = ''0''"
  by (simp add: digits.simps[of 0] digit_char_def)

lemma digits_1 [simp]: "digits (Suc 0) = ''1''"
  by (simp add: digits.simps[of "Suc 0"] digit_char_def)

lemma generateSimulatedCAE_env0: "generateSimulatedCAE env0 = ''49999999999999''"
proof -
  have f: "fmul (1/2) 99999999999999 = 99999999999999 / 2"
    using binary64_scaled[of 99999999999999 "- 1"] by (simp add: fmul_def power_int_minus)
  have "\<lfloor>fmul (1/2) 99999999999999\<rfloor> = 49999999999999"
    unfolding f by simp
  then show ?thesis
    by (simp add: generateSimulatedCAE_def env0_def Math_floor_def padStart_def digit_char_def)
qed

lemma setDate_in_month: "n \<le> days_in_month y m \<Longrightarrow> setDate y m n = \<lparr>year = y, month = m, day = n\<rparr>"
  by (simp add: setDate.simps)

lemmas day_number_eval = day_number_def days_before_year_def days_before_month_def
  days_in_month_def leap_year_def upt_rec_numeral eval_nat_numeral

lemma day_number_epoch: "day_number \<lparr>year = 1970, month = 1, day = 1\<rparr> = 719528"
  by (simp add: day_number_eval)

lemma day_number_2024_03_25: "day_number \<lparr>year = 2024, month = 3, day = 25\<rparr> = 739335"
  by (simp add: day_number_eval)

lemma getFechaVencimientoCAE_env0: "getFechaVencimientoCAE env0 = Inr ''2024-03-25''"
proof -
  have l: "setDate 2024 3 (15 + 10) = \<lparr>year = 2024, month = 3, day = 25\<rparr>"
    by (simp add: setDate_in_month days_in_month_def)
  have t: "toISODate \<lparr>year = 2024, month = 3, day = 25\<rparr> = ''2024-03-25''"
    by (simp add: toISODate_def padStart_def digit_char_def)
  have "getFechaVencimientoCAE env0 =
      (let fecha = setDate 2024 3 (15 + 10);
           utc_ms = 43200000;
           u = (day_number fecha - day_number \<lparr>year = 1970, month = 1, day = 1\<rparr>) * msPerDay
                 + utc_ms
       in if 8640000000000000 < \<bar>u\<bar> then Inl (Error ''Invalid time value'')
          else Inr (toISODate (shift_days (utc_ms div msPerDay) fecha)))"
    by (simp add: getFechaVencimientoCAE_def env0_def Let_def)
  also have "\<dots> = Inr ''2024-03-25''"
    unfolding l Let_def day_number_epoch day_number_2024_03_25
    by (simp add: msPerDay_def t)
  finally show ?thesis .
qed

lemma sendInvoice_env0:
  assumes "numeroDocumento (cliente d) \<noteq> []" "items d \<noteq> []"
  shows "sendInvoice env0 config0 d =
    ([GenerateXMLRequest, SignXML, GenerateSimulatedCAE, GetFechaVencimientoCAE, GenerateQRCode],
     Inr \<lparr>success = True, cae = Some ''49999999999999'',
          fechaVencimientoCae = Some ''2024-03-25'',
          numeroComprobante = Some (InvoiceData.numeroComprobante d),
          qrCode = Some ''data:image/png;base64,'', error = None,
          observaciones = Some [''Comprobante autorizado correctamente'']\<rparr>)"
proof -
  have 1: "generateXMLRequest env0 config0 d = Inr ''<soap:Envelope/>''"
    by (simp add: generateXMLRequest_def env0_def)
  have 2: "generateQRCode env0 config0 d c = Inr ''data:image/png;base64,''" for c
    by (simp add: generateQRCode_def env0_def)
  show ?thesis using assms
    by (simp add: sendInvoice_def sendInvoice_try_def 1 2 generateSimulatedCAE_env0
        getFechaVencimientoCAE_env0 Let_def)
qed

section \<open>What \<^verbatim>\<open>sendInvoice\<close> returns\<close>

lemma sendInvoice_Inr: "\<exists>calls r. sendInvoice e config d = (calls, Inr r)"
  by (auto simp: sendInvoice_def split: prod.splits sum.splits)

lemma sendInvoice_cases:
  "sendInvoice e config d = (calls, Inr r) \<Longrightarrow>
     (success r \<and> cae r \<noteq> None \<and> error r = None \<and>
        AFIPResponse.observaciones r = Some [''Comprobante autorizado correctamente'']) \<or>
     (\<not> success r \<and> cae r = None \<and> error r \<noteq> None \<and> AFIPResponse.observaciones r = None)"
  by (auto simp: sendInvoice_def sendInvoice_try_def sendInvoice_catch_def Let_def
      split: if_splits sum.splits)

text \<open>
  Claim C4. For every invoice, and whatever the library calls do, \<^verbatim>\<open>sendInvoice\<close>
  fulfils its promise with a result (it never rejects with a thrown value); in the result
  the authorization code \<^verbatim>\<open>cae\<close> is present exactly when \<^verbatim>\<open>success\<close> is true, and
  the failure reason \<^verbatim>\<open>error\<close> exactly when it is false.
\<close>

theorem sendInvoice_never_throws:
  "\<exists>calls r. sendInvoice e config invoiceData = (calls, Inr r) \<and>
     (cae r \<noteq> None) = success r \<and> (error r \<noteq> None) = (\<not> success r)"
proof -
  obtain calls r where a: "sendInvoice e config invoiceData = (calls, Inr r)"
    using sendInvoice_Inr by blast
  from sendInvoice_cases[OF a] a show ?thesis by auto
qed

section \<open>The tax breakdown of the request\<close>

text \<open>
  Claim C3 says that the request document holds exactly one aggregate \<^verbatim>\<open>AlicIva\<close>
  entry whatever the number of lines. The invoice of two lines gives a document with two
  entries.
\<close>

theorem alicIva_two_lines_counterexample:
  "length (items invoice2) = 2 \<and> length (ar_AlicIva (xmlData config0 invoice2)) = 2"
  by (simp add: xmlData_def invoice2_def invoice0_def Let_def)

text \<open>
  Claim C3, amended. The document that \<^verbatim>\<open>generateXMLRequest\<close> hands to the builder
  holds one \<^verbatim>\<open>AlicIva\<close> entry per line of the invoice, in the order of the lines
  (so exactly one entry exactly when the invoice has one line); every entry carries the
  code 5 written into the source, the base amount \<^verbatim>\<open>cantidad * precioUnitario\<close> of its
  line and the tax amount of its line, both formatted to two decimals.
\<close>

theorem alicIva_one_entry_per_line:
  "generateXMLRequest e config d = buildObject e (xmlData config d) \<and>
   length (ar_AlicIva (xmlData config d)) = length (items d) \<and>
   (\<forall>i < length (items d).
      ar_AlicIva (xmlData config d) ! i =
        \<lparr>ar_Id = 5,
         ar_BaseImp = toFixed2 (fmul (cantidad (items d ! i)) (precioUnitario (items d ! i))),
         ar_Importe = toFixed2 (importeIVA (items d ! i))\<rparr>)"
  by (simp add: generateXMLRequest_def xmlData_def Let_def)

theorem alicIva_one_entry_per_line_witness:
  "length (ar_AlicIva (xmlData config0 invoice2)) = 2 \<and>
   ar_Id (ar_AlicIva (xmlData config0 invoice2) ! 0) = 5 \<and>
   ar_Id (ar_AlicIva (xmlData config0 invoice2) ! 1) = 5"
proof -
  have n: "length (items invoice2) = 2" by (simp add: invoice2_def invoice0_def)
  from alicIva_one_entry_per_line[of env0 config0 invoice2] n show ?thesis by simp
qed

section \<open>The document-type code of an unknown kind\<close>

text \<open>
  Claim C5 says that every kind outside the table maps to the code 1 and that the fallback
  is surfaced as a remark of the result. The kind \<^verbatim>\<open>toString\<close> is outside the table and
  maps to the member of that name inherited from \<^verbatim>\<open>Object.prototype\<close>, not to a code;
  the kind \<^verbatim>\<open>recibo\<close> maps to 1, and the result of submitting an invoice of that kind
  carries the one remark every authorized result carries, and nothing about the fallback.
\<close>

theorem tipo_fallback_silent_counterexample:
  "getTipoComprobante ''toString'' = Inherited ''toString'' \<and>
   getTipoComprobante ''recibo'' = Num 1 \<and>
   sendInvoice env0 config0 (invoice0\<lparr>tipoComprobante := ''recibo''\<rparr>) =
     ([GenerateXMLRequest, SignXML, GenerateSimulatedCAE, GetFechaVencimientoCAE, GenerateQRCode],
      Inr \<lparr>success = True, cae = Some ''49999999999999'',
           fechaVencimientoCae = Some ''2024-03-25'', numeroComprobante = Some 7,
           qrCode = Some ''data:image/png;base64,'', error = None,
           observaciones = Some [''Comprobante autorizado correctamente'']\<rparr>)"
  by (simp add: getTipoComprobante_def tipos_def Object_prototype_def sendInvoice_env0
      invoice0_def cliente0_def)

text \<open>
  Claim C5, amended. For every kind that is neither in the table nor the name of a member
  of \<^verbatim>\<open>Object.prototype\<close>, the document-type code is 1, the code of the invoice; the
  fallback is silent: the remarks of the result are the single remark of every authorized
  result, or absent when the submission fails.
\<close>

theorem tipo_fallback_unremarked:
  assumes "tipo \<notin> set (map fst tipos)" "tipo \<notin> set Object_prototype"
    and "tipoComprobante d = tipo"
  shows "getTipoComprobante (tipoComprobante d) = Num 1 \<and>
    (\<exists>calls r. sendInvoice e config d = (calls, Inr r) \<and>
       AFIPResponse.observaciones r =
         (if success r then Some [''Comprobante autorizado correctamente''] else None))"
proof -
  have "map_of tipos tipo = None" using assms(1) by (simp add: map_of_eq_None_iff)
  then have 1: "getTipoComprobante (tipoComprobante d) = Num 1"
    using assms(2,3) by (simp add: getTipoComprobante_def)
  obtain calls r where a: "sendInvoice e config d = (calls, Inr r)"
    using sendInvoice_Inr by blast
  from sendInvoice_cases[OF a]
  have "AFIPResponse.observaciones r =
      (if success r then Some [''Comprobante autorizado correctamente''] else None)"
    by auto
  with 1 a show ?thesis by blast
qed

theorem tipo_fallback_unremarked_witness:
  "getTipoComprobante (tipoComprobante (invoice0\<lparr>tipoComprobante := ''recibo''\<rparr>)) = Num 1 \<and>
   (\<exists>calls r. sendInvoice env0 config0 (invoice0\<lparr>tipoComprobante := ''recibo''\<rparr>) =
        (calls, Inr r) \<and>
      AFIPResponse.observaciones r =
        (if success r then Some [''Comprobante autorizado correctamente''] else None))"
proof -
  have 1: "''recibo'' \<notin> set (map fst tipos)" by (simp add: tipos_def)
  have 2: "''recibo'' \<notin> set Object_prototype" by (simp add: Object_prototype_def)
  have 3: "tipoComprobante (invoice0\<lparr>tipoComprobante := ''recibo''\<rparr>) = ''recibo''" by simp
  from tipo_fallback_unremarked[OF 1 2 3] show ?thesis .
qed

section \<open>The guard of \<^verbatim>\<open>sendInvoice\<close>\<close>

text \<open>
  Claim C6 says that \<^verbatim>\<open>sendInvoice\<close> fails when the line list is empty or a required
  recipient field is empty. The recipient's legal name \<^verbatim>\<open>razonSocial\<close> is such a field;
  with it empty the invoice is authorized.
\<close>

theorem sendInvoice_empty_razonSocial_counterexample:
  "razonSocial (cliente (invoice0\<lparr>cliente := cliente0\<lparr>razonSocial := []\<rparr>\<rparr>)) = [] \<and>
   sendInvoice env0 config0 (invoice0\<lparr>cliente := cliente0\<lparr>razonSocial := []\<rparr>\<rparr>) =
     ([GenerateXMLRequest, SignXML, GenerateSimulatedCAE, GetFechaVencimientoCAE, GenerateQRCode],
      Inr \<lparr>success = True, cae = Some ''49999999999999'',
           fechaVencimientoCae = Some ''2024-03-25'', numeroComprobante = Some 7,
           qrCode = Some ''data:image/png;base64,'', error = None,
           observaciones = Some [''Comprobante autorizado correctamente'']\<rparr>)"
  by (simp add: sendInvoice_env0 invoice0_def cliente0_def)

text \<open>
  Claim C6, amended. If the line list of the invoice is empty, or the recipient's document
  number is empty, \<^verbatim>\<open>sendInvoice\<close> returns the failure result (\<^verbatim>\<open>success\<close> false, a
  descriptive \<^verbatim>\<open>error\<close>, no authorization code) and calls none of the steps that build,
  sign, authorize or encode: its log of calls is empty. The other recipient fields are not
  looked at by \<^verbatim>\<open>sendInvoice\<close>.
\<close>

theorem sendInvoice_guard_rejects:
  assumes "items d = [] \<or> numeroDocumento (cliente d) = []"
  shows "sendInvoice e config d =
    ([], Inr \<lparr>success = False, cae = None, fechaVencimientoCae = None,
              numeroComprobante = None, qrCode = None,
              error = Some ''Datos incompletos: se requiere CUIT del cliente e items'',
              observaciones = None\<rparr>)"
  using assms by (auto simp: sendInvoice_def sendInvoice_try_def)

theorem sendInvoice_guard_rejects_witness:
  "sendInvoice env0 config0 (invoice0\<lparr>items := []\<rparr>) =
    ([], Inr \<lparr>success = False, cae = None, fechaVencimientoCae = None,
              numeroComprobante = None, qrCode = None,
              error = Some ''Datos incompletos: se requiere CUIT del cliente e items'',
              observaciones = None\<rparr>)"
  using sendInvoice_guard_rejects[of "invoice0\<lparr>items := []\<rparr>" env0 config0] by simp

section \<open>The validation of the totals in the route handler\<close>

lemma InvoiceSchema_wrong_total: "InvoiceSchema invoice_wrong_total = []"
  by (simp add: InvoiceSchema_def ClienteSchema_def InvoiceItemSchema_def issue_def
      invoice_wrong_total_def invoice0_def cliente0_def line0_def fecha_regex_def
      is_digit_def enumerate_eq_zip Let_def)

lemma binary64_cent_nonneg: "0 \<le> binary64 (1/100)"
  by (rule binary64_nonneg) simp

lemma toFixed2_242: "Number_of (toFixed2 242) = 242"
proof -
  have "toFixed2 242 = Fixed ''242.00''"
    by (simp add: toFixed2_def padStart_def digit_char_def Let_def)
  moreover have "decimal_value ''242.00'' = 242"
    by (simp add: decimal_value_def parse_nat_def digit_val_def Let_def)
  ultimately show ?thesis by (simp add: binary64_numeral)
qed

text \<open>
  Claim C7. A supplied total that is off by 1.00 from the total computed from the lines is
  to be rejected by the handler before the service is called. The handler compares the
  supplied \<^verbatim>\<open>subtotal\<close> and \<^verbatim>\<open>totalIVA\<close> with the sums over the lines and never looks
  at \<^verbatim>\<open>total\<close> beyond its sign: for the scenario invoice with the total 243 in place of
  the computed 242 it calls \<^verbatim>\<open>sendInvoice\<close> and answers 200 with the authorization.
\<close>

theorem POST_accepts_wrong_total:
  "total invoice_wrong_total = 243 \<and>
   totals_total (calculateTotals (items invoice_wrong_total)) = 242 \<and>
   POST env0 config0 (Inr invoice_wrong_total) =
     ([SendInvoice, GenerateXMLRequest, SignXML, GenerateSimulatedCAE, GetFechaVencimientoCAE,
       GenerateQRCode],
      \<lparr>status = 200, body_success = True, body_error = None, body_details = None,
       body_data = Some
         \<lparr>data_cae = Some ''49999999999999'',
          data_fechaVencimientoCae = Some ''2024-03-25'',
          data_numeroComprobante = Some 7,
          data_qrCode = Some ''data:image/png;base64,'',
          data_observaciones = Some [''Comprobante autorizado correctamente'']\<rparr>\<rparr>)"
proof -
  have s: "sendInvoice env0 config0 invoice_wrong_total =
    ([GenerateXMLRequest, SignXML, GenerateSimulatedCAE, GetFechaVencimientoCAE, GenerateQRCode],
     Inr \<lparr>success = True, cae = Some ''49999999999999'',
          fechaVencimientoCae = Some ''2024-03-25'',
          numeroComprobante = Some 7,
          qrCode = Some ''data:image/png;base64,'', error = None,
          observaciones = Some [''Comprobante autorizado correctamente'']\<rparr>)"
    by (simp add: sendInvoice_env0 invoice_wrong_total_def invoice0_def cliente0_def)
  have sub: "foldl (\<lambda>sum item. fadd sum (fmul (cantidad item) (precioUnitario item))) 0
      (items invoice_wrong_total) = 200"
    by (simp add: invoice_wrong_total_def invoice0_def line0_def fadd_def fmul_def
        binary64_numeral)
  have iva: "foldl (\<lambda>sum item. fadd sum (importeIVA item)) 0
      (items invoice_wrong_total) = 42"
    by (simp add: invoice_wrong_total_def invoice0_def line0_def fadd_def binary64_numeral)
  have d1: "fsub 200 (subtotal invoice_wrong_total) = 0"
    by (simp add: invoice_wrong_total_def invoice0_def fsub_def)
  have d2: "fsub 42 (totalIVA invoice_wrong_total) = 0"
    by (simp add: invoice_wrong_total_def invoice0_def fsub_def)
  have t: "totals_total (calculateTotals (items invoice_wrong_total)) = 242"
    unfolding calculateTotals_def Let_def sub iva
    by (simp add: fadd_def binary64_numeral toFixed2_242)
  have c: "\<not> binary64 (1/100) < 0" using binary64_cent_nonneg by linarith
  have "POST env0 config0 (Inr invoice_wrong_total) =
     ([SendInvoice, GenerateXMLRequest, SignXML, GenerateSimulatedCAE, GetFechaVencimientoCAE,
       GenerateQRCode],
      \<lparr>status = 200, body_success = True, body_error = None, body_details = None,
       body_data = Some
         \<lparr>data_cae = Some ''49999999999999'',
          data_fechaVencimientoCae = Some ''2024-03-25'',
          data_numeroComprobante = Some 7,
          data_qrCode = Some ''data:image/png;base64,'',
          data_observaciones = Some [''Comprobante autorizado correctamente'']\<rparr>\<rparr>)"
    unfolding POST_def by (simp add: InvoiceSchema_wrong_total Let_def sub iva d1 d2 c s)
  with t show ?thesis by (simp add: invoice_wrong_total_def)
qed

section \<open>The stand-in numbering service\<close>

text \<open>\<^verbatim>\<open>Math.random()\<close> returns a binary64 value \<open>r\<close> with \<open>0 \<le> r < 1\<close>. Its
  rounded product with a constant \<open>c \<ge> 1\<close> stays below \<open>c\<close>.\<close>

lemma fmul_random_below:
  assumes "binary64 r = r" "0 \<le> r" "r < 1" "1 \<le> c"
  shows "0 \<le> fmul r c \<and> fmul r c < c"
proof -
  define eps :: rat where "eps = 2 powi (- 53)"
  define del :: rat where "del = 2 powi (- 1075)"
  have eps: "0 < eps" "eps < 1" by (simp_all add: eps_def power_int_minus)
  have del: "del < eps * eps" by (simp add: eps_def del_def power_int_minus)
  have r: "r \<le> 1 - eps" using double_below_one[OF assms(1-3)] by (simp add: eps_def)
  have x0: "0 \<le> r * c" using assms(2,4) by simp
  have a: "r * c \<le> (1 - eps) * c"
    by (rule mult_right_mono) (use r assms(4) in auto)
  have "r * c * (1 + eps) \<le> (1 - eps) * c * (1 + eps)"
    by (rule mult_right_mono) (use a eps in auto)
  also have "\<dots> = c - c * (eps * eps)" by (simp add: algebra_simps)
  finally have 1: "r * c * (1 + eps) \<le> c - c * (eps * eps)" .
  have "1 * (eps * eps) \<le> c * (eps * eps)"
    by (rule mult_right_mono) (use assms(4) eps in auto)
  then have 2: "eps * eps \<le> c * (eps * eps)" by simp
  have "binary64 (r * c) \<le> r * c + r * c * eps + del"
    using binary64_upper[OF x0] by (simp add: eps_def del_def)
  also have "\<dots> = r * c * (1 + eps) + del" by (simp add: algebra_simps)
  also have "\<dots> < c" using 1 2 del by linarith
  finally have "binary64 (r * c) < c" .
  moreover have "0 \<le> binary64 (r * c)" using x0 by (rule binary64_nonneg)
  ultimately show ?thesis by (simp add: fmul_def)
qed

text \<open>
  Claim C10. For every document-kind argument \<^verbatim>\<open>getNextInvoiceNumber\<close> returns an
  integer between 1 and 1000 inclusive, and the value does not depend on the argument:
  with the same value of \<^verbatim>\<open>Math.random()\<close> any two kinds give the same number.
\<close>

theorem getNextInvoiceNumber_range:
  assumes "binary64 (Math_random e) = Math_random e"
    and "0 \<le> Math_random e" "Math_random e < 1"
  shows "(\<exists>n::int. getNextInvoiceNumber e tipo = of_int n \<and> 1 \<le> n \<and> n \<le> 1000) \<and>
    getNextInvoiceNumber e tipo' = getNextInvoiceNumber e tipo"
proof -
  define b where "b = fmul (Math_random e) 1000"
  have b: "0 \<le> b" "b < 1000" using fmul_random_below[OF assms, of 1000] by (simp_all add: b_def)
  define n where "n = \<lfloor>b\<rfloor>"
  have n: "0 \<le> n" "n < 1000" using b by (simp_all add: n_def floor_less_iff)
  have "\<bar>n + 1\<bar> < 2 ^ 53" using n by simp
  from binary64_of_int[OF this]
  have "getNextInvoiceNumber e tipo = of_int (n + 1)"
    by (simp add: getNextInvoiceNumber_def Math_floor_def fadd_def b_def n_def)
  moreover have "1 \<le> n + 1" "n + 1 \<le> 1000" using n by simp_all
  ultimately have "\<exists>n::int. getNextInvoiceNumber e tipo = of_int n \<and> 1 \<le> n \<and> n \<le> 1000"
    by blast
  then show ?thesis by (simp add: getNextInvoiceNumber_def)
qed

theorem getNextInvoiceNumber_range_witness:
  "(\<exists>n::int. getNextInvoiceNumber env0 ''factura'' = of_int n \<and> 1 \<le> n \<and> n \<le> 1000) \<and>
   getNextInvoiceNumber env0 ''nota_credito'' = getNextInvoiceNumber env0 ''factura''"
proof -
  have 1: "binary64 (Math_random env0) = Math_random env0"
    by (simp add: env0_def binary64_half)
  have 2: "0 \<le> Math_random env0" "Math_random env0 < 1" by (simp_all add: env0_def)
  from getNextInvoiceNumber_range[OF 1 2] show ?thesis .
qed

section \<open>The simulated authorization code and its expiry\<close>

lemma is_digit_digit_char: "d < 10 \<Longrightarrow> is_digit (digit_char d)"
proof -
  assume "d < 10"
  then have "d \<in> {0, 1, 2, 3, 4, 5, 6, 7, 8, 9}" by auto
  then show ?thesis by (auto simp: is_digit_def digit_char_def)
qed

lemma digits_all_digit: "ch \<in> set (digits n) \<Longrightarrow> is_digit ch"
proof (induction n arbitrary: ch rule: digits.induct)
  case (1 n)
  show ?case
  proof (cases "n < 10")
    case True
    with "1.prems" show ?thesis by (simp add: digits.simps[of n] is_digit_digit_char)
  next
    case False
    with "1.prems" "1.IH" show ?thesis
      by (auto simp: digits.simps[of n] is_digit_digit_char)
  qed
qed

lemma length_digits_le: "n < 10 ^ k \<Longrightarrow> 0 < k \<Longrightarrow> length (digits n) \<le> k"
proof (induction n arbitrary: k rule: digits.induct)
  case (1 n)
  show ?case
  proof (cases "n < 10")
    case True
    with "1.prems" show ?thesis by (simp add: digits.simps[of n])
  next
    case False
    obtain j where k: "k = Suc j" using "1.prems"(2) by (cases k) auto
    have j: "0 < j" using False "1.prems"(1) k by (cases j) auto
    have "n div 10 < 10 ^ j" using "1.prems"(1) k by (simp add: less_mult_imp_div_less mult.commute)
    from "1.IH"[OF False this j] show ?thesis using False k
      by (simp add: digits.simps[of n])
  qed
qed

lemma generateSimulatedCAE_digits:
  assumes "binary64 (Math_random e) = Math_random e"
    and "0 \<le> Math_random e" "Math_random e < 1"
  shows "length (generateSimulatedCAE e) = 14 \<and> (\<forall>ch \<in> set (generateSimulatedCAE e). is_digit ch)"
proof -
  define b where "b = fmul (Math_random e) 99999999999999"
  have b: "0 \<le> b" "b < 99999999999999"
    using fmul_random_below[OF assms, of 99999999999999] by (simp_all add: b_def)
  define n where "n = nat \<lfloor>Math_floor b\<rfloor>"
  have fl: "\<lfloor>b\<rfloor> < 99999999999999" using b by (simp add: floor_less_iff)
  have f0: "0 \<le> \<lfloor>b\<rfloor>" using b by simp
  have "nat \<lfloor>b\<rfloor> < 100000000000000" using fl f0 by linarith
  then have "nat \<lfloor>b\<rfloor> < 10 ^ 14" by simp
  then have "n < 10 ^ 14" by (simp add: n_def Math_floor_def)
  then have len: "length (digits n) \<le> 14" by (rule length_digits_le) simp
  have cae: "generateSimulatedCAE e = replicate (14 - length (digits n)) (CHR ''0'') @ digits n"
    by (simp add: generateSimulatedCAE_def padStart_def n_def b_def)
  have "is_digit (CHR ''0'')" by (simp add: is_digit_def)
  then show ?thesis using len digits_all_digit[of _ n] by (auto simp: cae)
qed

text \<open>
  The expiry date as a calendar fact. With \<open>L\<close> the date 10 days after the local date of
  the clock and \<open>D\<close> the date \<open>L\<close> moved by the whole days between local time and UTC,
  \<^verbatim>\<open>getFechaVencimientoCAE\<close> returns \<open>D\<close> in ISO form. Both dates are fixed by their day
  numbers (\<open>day_number_inject\<close>). The clock is taken within 200000 years of the year 0,
  where the time value stays in range, and the offset of the zone below one day.
\<close>

lemma getFechaVencimientoCAE_date:
  assumes v: "valid_date (Date_now e)"
    and y: "- 200000 \<le> year (Date_now e)" "year (Date_now e) \<le> 200000"
    and ms: "Date_now_ms e < 86400000"
    and tz: "\<And>L t. \<bar>LocalTZA e L t\<bar> \<le> 86400000"
  shows "\<exists>L D. valid_date L \<and> day_number L = day_number (Date_now e) + 10 \<and>
    valid_date D \<and>
    day_number D =
      day_number L + (int (Date_now_ms e) - LocalTZA e L (Date_now_ms e)) div msPerDay \<and>
    (LocalTZA e L (Date_now_ms e) = 0 \<longrightarrow> D = L) \<and>
    getFechaVencimientoCAE e = Inr (toISODate D)"
proof -
  define L where "L = setDate (year (Date_now e)) (month (Date_now e)) (day (Date_now e) + 10)"
  define off where "off = LocalTZA e L (Date_now_ms e)"
  define k where "k = (int (Date_now_ms e) - off) div msPerDay"
  define D where "D = shift_days k L"
  have L: "valid_date L" "day_number L = day_number (Date_now e) + 10"
    using setDate_plus[OF v, of 10] by (simp_all add: L_def)
  have D: "valid_date D" "day_number D = day_number L + k"
    using shift_days_number[OF L(1), of k] by (simp_all add: D_def)
  have "days_before_year (- 200000) \<le> days_before_year (year (Date_now e))"
    using y(1) by (rule days_before_year_mono)
  then have lo: "- 73048501 < day_number (Date_now e)"
    using day_number_bounds(1)[OF v] by (simp add: days_before_year_def)
  have "days_before_year (year (Date_now e) + 1) \<le> days_before_year 200001"
    by (rule days_before_year_mono) (use y(2) in simp)
  then have hi: "day_number (Date_now e) \<le> 73048865"
    using day_number_bounds(2)[OF v] by (simp add: days_before_year_def)
  have o: "- 86400000 \<le> off" "off \<le> 86400000"
    using tz[of L "Date_now_ms e"] by (simp_all add: off_def abs_le_iff)
  have m: "0 \<le> int (Date_now_ms e)" "int (Date_now_ms e) < 86400000" using ms by simp_all
  have range: "\<not> 8640000000000000 <
      \<bar>(day_number L - day_number \<lparr>year = 1970, month = 1, day = 1\<rparr>) * msPerDay +
        (int (Date_now_ms e) - off)\<bar>"
  proof -
    define n where "n = day_number (Date_now e) + 10 - 719528"
    define r where "r = int (Date_now_ms e) - off"
    have n: "- 73768019 \<le> n" "n \<le> 72329347" using lo hi by (simp_all add: n_def)
    have r: "- 86400000 \<le> r" "r \<le> 172800000" using o m by (simp_all add: r_def)
    have "- 73768019 * 86400000 \<le> n * 86400000" "n * 86400000 \<le> 72329347 * 86400000"
      using n by simp_all
    then have "\<bar>n * 86400000 + r\<bar> \<le> 8640000000000000" using r by simp
    then show ?thesis
      unfolding day_number_epoch L(2) msPerDay_def n_def r_def by simp
  qed
  have g: "getFechaVencimientoCAE e = Inr (toISODate D)"
    using range by (simp add: getFechaVencimientoCAE_def Let_def D_def k_def off_def L_def)
  have z: "D = L" if "off = 0"
  proof -
    have "k = 0" using that m by (simp add: k_def msPerDay_def)
    then show ?thesis by (simp add: D_def)
  qed
  show ?thesis
    using L D g z unfolding k_def off_def by blast
qed

text \<open>In the zone of Buenos Aires, three hours behind UTC, a clock that reads ten in the
  evening of 2024-03-15 gives the expiry date 2024-03-26: ten days on it is one in the
  morning of the next day in UTC.\<close>

lemma getFechaVencimientoCAE_env_ar: "getFechaVencimientoCAE env_ar = Inr ''2024-03-26''"
proof -
  have l: "setDate 2024 3 (15 + 10) = \<lparr>year = 2024, month = 3, day = 25\<rparr>"
    by (simp add: setDate_in_month days_in_month_def)
  have n: "next_day \<lparr>year = 2024, month = 3, day = 25\<rparr> = \<lparr>year = 2024, month = 3, day = 26\<rparr>"
    by (simp add: next_day_def setDate_in_month days_in_month_def)
  have s: "shift_days 1 \<lparr>year = 2024, month = 3, day = 25\<rparr> =
      \<lparr>year = 2024, month = 3, day = 26\<rparr>"
    by (simp add: shift_days_def n)
  have t: "toISODate \<lparr>year = 2024, month = 3, day = 26\<rparr> = ''2024-03-26''"
    by (simp add: toISODate_def padStart_def digit_char_def)
  have "getFechaVencimientoCAE env_ar =
      (let fecha = setDate 2024 3 (15 + 10);
           utc_ms = 79200000 - (- 10800000);
           u = (day_number fecha - day_number \<lparr>year = 1970, month = 1, day = 1\<rparr>) * msPerDay
                 + utc_ms
       in if 8640000000000000 < \<bar>u\<bar> then Inl (Error ''Invalid time value'')
          else Inr (toISODate (shift_days (utc_ms div msPerDay) fecha)))"
    by (simp add: getFechaVencimientoCAE_def env_ar_def env0_def Let_def)
  also have "\<dots> = Inr ''2024-03-26''"
    unfolding l Let_def day_number_epoch day_number_2024_03_25
    by (simp add: msPerDay_def s t)
  finally show ?thesis .
qed

text \<open>
  Claim C2 says that the expiry date of the simulated authorization is the issue date of the
  invoice plus 10 days. The scenario invoice is dated 2024-01-01, and the date 10 days
  after it is 2024-01-11. Submitted when the clock reads 2024-03-15 (zone UTC) it is
  authorized with the expiry date 2024-03-25, which is 10 days after the date of the clock
  and 84 days after the issue date.
\<close>

theorem expiry_from_clock_counterexample:
  "fecha invoice0 = toISODate \<lparr>year = 2024, month = 1, day = 1\<rparr> \<and>
   Date_now env0 = \<lparr>year = 2024, month = 3, day = 15\<rparr> \<and>
   sendInvoice env0 config0 invoice0 =
     ([GenerateXMLRequest, SignXML, GenerateSimulatedCAE, GetFechaVencimientoCAE, GenerateQRCode],
      Inr \<lparr>success = True, cae = Some ''49999999999999'',
           fechaVencimientoCae = Some ''2024-03-25'', numeroComprobante = Some 7,
           qrCode = Some ''data:image/png;base64,'', error = None,
           observaciones = Some [''Comprobante autorizado correctamente'']\<rparr>) \<and>
   toISODate \<lparr>year = 2024, month = 3, day = 25\<rparr> = ''2024-03-25'' \<and>
   day_number \<lparr>year = 2024, month = 3, day = 25\<rparr> =
     day_number \<lparr>year = 2024, month = 3, day = 15\<rparr> + 10 \<and>
   day_number \<lparr>year = 2024, month = 3, day = 25\<rparr> =
     day_number \<lparr>year = 2024, month = 1, day = 1\<rparr> + 84 \<and>
   toISODate \<lparr>year = 2024, month = 1, day = 11\<rparr> = ''2024-01-11'' \<and>
   day_number \<lparr>year = 2024, month = 1, day = 11\<rparr> =
     day_number \<lparr>year = 2024, month = 1, day = 1\<rparr> + 10"
proof -
  have "fecha invoice0 = toISODate \<lparr>year = 2024, month = 1, day = 1\<rparr>"
    by (simp add: invoice0_def toISODate_def padStart_def digit_char_def)
  moreover have "Date_now env0 = \<lparr>year = 2024, month = 3, day = 15\<rparr>"
    by (simp add: env0_def)
  moreover have "sendInvoice env0 config0 invoice0 =
     ([GenerateXMLRequest, SignXML, GenerateSimulatedCAE, GetFechaVencimientoCAE, GenerateQRCode],
      Inr \<lparr>success = True, cae = Some ''49999999999999'',
           fechaVencimientoCae = Some ''2024-03-25'', numeroComprobante = Some 7,
           qrCode = Some ''data:image/png;base64,'', error = None,
           observaciones = Some [''Comprobante autorizado correctamente'']\<rparr>)"
    by (simp add: sendInvoice_env0 invoice0_def cliente0_def)
  moreover have "toISODate \<lparr>year = 2024, month = 3, day = 25\<rparr> = ''2024-03-25''"
    "toISODate \<lparr>year = 2024, month = 1, day = 11\<rparr> = ''2024-01-11''"
    by (simp_all add: toISODate_def padStart_def digit_char_def)
  moreover have "day_number \<lparr>year = 2024, month = 3, day = 25\<rparr> =
     day_number \<lparr>year = 2024, month = 3, day = 15\<rparr> + 10"
    "day_number \<lparr>year = 2024, month = 3, day = 25\<rparr> =
     day_number \<lparr>year = 2024, month = 1, day = 1\<rparr> + 84"
    "day_number \<lparr>year = 2024, month = 1, day = 11\<rparr> =
     day_number \<lparr>year = 2024, month = 1, day = 1\<rparr> + 10"
    by (simp_all add: day_number_eval)
  ultimately show ?thesis by blast
qed

text \<open>
  Claim C2, amended. Submitting an invoice that passes the guard (such as the scenario
  invoice) through the simulated path, with both library calls succeeding, returns a result
  with \<^verbatim>\<open>success\<close> true and an authorization code \<^verbatim>\<open>cae\<close> that is a string of
  exactly 14 decimal digits. Its expiry date \<^verbatim>\<open>fechaVencimientoCae\<close> comes from the
  clock at processing time, whatever the issue date of the invoice: with \<open>L\<close> the calendar
  date 10 days after the local date of the clock, the expiry date is the UTC date of the
  instant that has the local date \<open>L\<close> and the local time of day of the clock, that is
  \<open>L\<close> moved by the whole days between that local time and UTC, and \<open>L\<close> itself when the
  offset of the zone is zero. This holds when \<^verbatim>\<open>Math.random()\<close> returns a number at
  least 0 and below 1, for a clock that reads a calendar date within 200000 years of the
  year 0 and a time of day below 24 hours, and a zone offset of at most one day.
\<close>

theorem sendInvoice_simulated_authorization:
  assumes "numeroDocumento (cliente d) \<noteq> []" "items d \<noteq> []"
    and "generateXMLRequest e config d = Inr xml"
    and "generateQRCode e config d (generateSimulatedCAE e) = Inr qr"
    and "binary64 (Math_random e) = Math_random e"
    and "0 \<le> Math_random e" "Math_random e < 1"
    and "valid_date (Date_now e)"
    and "- 200000 \<le> year (Date_now e)" "year (Date_now e) \<le> 200000"
    and "Date_now_ms e < 86400000"
    and "\<And>L t. \<bar>LocalTZA e L t\<bar> \<le> 86400000"
  shows "\<exists>calls r c L D. sendInvoice e config d = (calls, Inr r) \<and> success r \<and>
    cae r = Some c \<and> length c = 14 \<and> (\<forall>ch \<in> set c. is_digit ch) \<and>
    valid_date L \<and> day_number L = day_number (Date_now e) + 10 \<and>
    valid_date D \<and>
    day_number D =
      day_number L + (int (Date_now_ms e) - LocalTZA e L (Date_now_ms e)) div msPerDay \<and>
    (LocalTZA e L (Date_now_ms e) = 0 \<longrightarrow> D = L) \<and>
    fechaVencimientoCae r = Some (toISODate D)"
proof -
  from generateSimulatedCAE_digits[OF assms(5-7)]
  have c: "length (generateSimulatedCAE e) = 14"
    "\<forall>ch \<in> set (generateSimulatedCAE e). is_digit ch" by auto
  obtain L D where LD: "valid_date L" "day_number L = day_number (Date_now e) + 10"
    "valid_date D"
    "day_number D =
      day_number L + (int (Date_now_ms e) - LocalTZA e L (Date_now_ms e)) div msPerDay"
    "LocalTZA e L (Date_now_ms e) = 0 \<longrightarrow> D = L"
    "getFechaVencimientoCAE e = Inr (toISODate D)"
    using getFechaVencimientoCAE_date[OF assms(8-12)] by blast
  have "sendInvoice e config d =
    ([GenerateXMLRequest, SignXML, GenerateSimulatedCAE, GetFechaVencimientoCAE, GenerateQRCode],
     Inr \<lparr>success = True, cae = Some (generateSimulatedCAE e),
          fechaVencimientoCae = Some (toISODate D),
          numeroComprobante = Some (InvoiceData.numeroComprobante d),
          qrCode = Some qr, error = None,
          observaciones = Some [''Comprobante autorizado correctamente'']\<rparr>)"
    using assms(1-4) LD(6) by (simp add: sendInvoice_def sendInvoice_try_def Let_def)
  then have "sendInvoice e config d =
      ([GenerateXMLRequest, SignXML, GenerateSimulatedCAE, GetFechaVencimientoCAE,
        GenerateQRCode],
       Inr \<lparr>success = True, cae = Some (generateSimulatedCAE e),
          fechaVencimientoCae = Some (toISODate D),
          numeroComprobante = Some (InvoiceData.numeroComprobante d),
          qrCode = Some qr, error = None,
          observaciones = Some [''Comprobante autorizado correctamente'']\<rparr>) \<and>
      success \<lparr>success = True, cae = Some (generateSimulatedCAE e),
          fechaVencimientoCae = Some (toISODate D),
          numeroComprobante = Some (InvoiceData.numeroComprobante d),
          qrCode = Some qr, error = None,
          observaciones = Some [''Comprobante autorizado correctamente'']\<rparr> \<and>
      cae \<lparr>success = True, cae = Some (generateSimulatedCAE e),
          fechaVencimientoCae = Some (toISODate D),
          numeroComprobante = Some (InvoiceData.numeroComprobante d),
          qrCode = Some qr, error = None,
          observaciones = Some [''Comprobante autorizado correctamente'']\<rparr> =
        Some (generateSimulatedCAE e) \<and>
      fechaVencimientoCae \<lparr>success = True, cae = Some (generateSimulatedCAE e),
          fechaVencimientoCae = Some (toISODate D),
          numeroComprobante = Some (InvoiceData.numeroComprobante d),
          qrCode = Some qr, error = None,
          observaciones = Some [''Comprobante autorizado correctamente'']\<rparr> =
        Some (toISODate D)"
    by simp
  with c LD(1-5) show ?thesis by blast
qed

theorem sendInvoice_simulated_authorization_witness:
  "(\<exists>calls r c L D. sendInvoice env0 config0 invoice0 = (calls, Inr r) \<and> success r \<and>
    cae r = Some c \<and> length c = 14 \<and> (\<forall>ch \<in> set c. is_digit ch) \<and>
    valid_date L \<and> day_number L = day_number (Date_now env0) + 10 \<and>
    valid_date D \<and>
    day_number D =
      day_number L +
      (int (Date_now_ms env0) - LocalTZA env0 L (Date_now_ms env0)) div msPerDay \<and>
    (LocalTZA env0 L (Date_now_ms env0) = 0 \<longrightarrow> D = L) \<and>
    fechaVencimientoCae r = Some (toISODate D)) \<and>
   (\<exists>calls r c L D. sendInvoice env_ar config0 invoice0 = (calls, Inr r) \<and> success r \<and>
    cae r = Some c \<and> length c = 14 \<and> (\<forall>ch \<in> set c. is_digit ch) \<and>
    valid_date L \<and> day_number L = day_number (Date_now env_ar) + 10 \<and>
    valid_date D \<and>
    day_number D =
      day_number L +
      (int (Date_now_ms env_ar) - LocalTZA env_ar L (Date_now_ms env_ar)) div msPerDay \<and>
    (LocalTZA env_ar L (Date_now_ms env_ar) = 0 \<longrightarrow> D = L) \<and>
    fechaVencimientoCae r = Some (toISODate D))"
proof -
  have 1: "numeroDocumento (cliente invoice0) \<noteq> []" "items invoice0 \<noteq> []"
    by (simp_all add: invoice0_def cliente0_def)
  have 2: "generateXMLRequest env0 config0 invoice0 = Inr ''<soap:Envelope/>''"
    "generateXMLRequest env_ar config0 invoice0 = Inr ''<soap:Envelope/>''"
    by (simp_all add: generateXMLRequest_def env_ar_def env0_def)
  have 3: "generateQRCode env0 config0 invoice0 (generateSimulatedCAE env0) =
      Inr ''data:image/png;base64,''"
    "generateQRCode env_ar config0 invoice0 (generateSimulatedCAE env_ar) =
      Inr ''data:image/png;base64,''"
    by (simp_all add: generateQRCode_def env_ar_def env0_def)
  have 4: "binary64 (Math_random env0) = Math_random env0"
    "binary64 (Math_random env_ar) = Math_random env_ar"
    by (simp_all add: env_ar_def env0_def binary64_half)
  have 5: "0 \<le> Math_random env0" "Math_random env0 < 1"
    "0 \<le> Math_random env_ar" "Math_random env_ar < 1"
    by (simp_all add: env_ar_def env0_def)
  have 6: "valid_date (Date_now env0)" "valid_date (Date_now env_ar)"
    by (simp_all add: env_ar_def env0_def valid_date_def days_in_month_def)
  have 7: "- 200000 \<le> year (Date_now env0)" "year (Date_now env0) \<le> 200000"
    "Date_now_ms env0 < 86400000"
    by (simp_all add: env0_def)
  have 8: "- 200000 \<le> year (Date_now env_ar)" "year (Date_now env_ar) \<le> 200000"
    "Date_now_ms env_ar < 86400000"
    by (simp_all add: env_ar_def env0_def)
  have 9: "\<bar>LocalTZA env0 L t\<bar> \<le> 86400000" "\<bar>LocalTZA env_ar L t\<bar> \<le> 86400000" for L t
    by (simp_all add: env_ar_def env0_def)
  from sendInvoice_simulated_authorization[OF 1 2(1) 3(1) 4(1) 5(1,2) 6(1) 7 9(1)]
    sendInvoice_simulated_authorization[OF 1 2(2) 3(2) 4(2) 5(3,4) 6(2) 8 9(2)]
  show ?thesis by (rule conjI)
qed

text \<open>A clock in the last days of the year 9999 gives an expiry date in the year 10000,
  which \<^verbatim>\<open>toISOString\<close> writes with a sign and six digits.\<close>

lemma getFechaVencimientoCAE_year_10000:
  "getFechaVencimientoCAE (env0\<lparr>Date_now := \<lparr>year = 9999, month = 12, day = 25\<rparr>\<rparr>) =
     Inr ''+010000-01-04''"
proof -
  have l: "setDate 9999 12 (25 + 10) = \<lparr>year = 10000, month = 1, day = 4\<rparr>"
    by (simp add: setDate.simps days_in_month_def)
  have n: "day_number \<lparr>year = 10000, month = 1, day = 4\<rparr> = 3652428"
    by (simp add: day_number_eval)
  have s: "shift_days (43200000 div msPerDay) d = d" for d
    by (simp add: msPerDay_def)
  have t: "toISODate \<lparr>year = 10000, month = 1, day = 4\<rparr> = ''+010000-01-04''"
    by (simp add: toISODate_def padStart_def digit_char_def)
  have "getFechaVencimientoCAE (env0\<lparr>Date_now := \<lparr>year = 9999, month = 12, day = 25\<rparr>\<rparr>) =
      (let fecha = setDate 9999 12 (25 + 10);
           utc_ms = 43200000;
           u = (day_number fecha - day_number \<lparr>year = 1970, month = 1, day = 1\<rparr>) * msPerDay
                 + utc_ms
       in if 8640000000000000 < \<bar>u\<bar> then Inl (Error ''Invalid time value'')
          else Inr (toISODate (shift_days (utc_ms div msPerDay) fecha)))"
    by (simp add: getFechaVencimientoCAE_def env0_def Let_def)
  also have "\<dots> = Inr ''+010000-01-04''"
    unfolding l Let_def day_number_epoch n s t
    by (simp add: msPerDay_def)
  finally show ?thesis .
qed

section \<open>The derived fields of an invoice line\<close>

text \<open>
  \<open>round2\<close>, following the words of the specification: the value rounded to two decimal
  places, the nearest multiple of 0.01 with ties away from zero, as a number. From
  \<open>10^21\<close> on a binary64 value has no fractional part and is its own rounding.
\<close>

definition round2 :: "rat \<Rightarrow> rat" where
  "round2 x =
     (if 10 ^ 21 \<le> \<bar>x\<bar> then x
      else binary64 (sgn x * of_int \<lfloor>\<bar>x\<bar> * 100 + 1/2\<rfloor> / 100))"

text \<open>Reading back what \<^verbatim>\<open>toFixed(2)\<close> printed gives \<open>round2\<close>.\<close>

lemma digit_val_digit_char: "d < 10 \<Longrightarrow> digit_val (digit_char d) = d"
proof -
  assume "d < 10"
  then have "d \<in> {0, 1, 2, 3, 4, 5, 6, 7, 8, 9}" by auto
  then show ?thesis by (auto simp: digit_val_def digit_char_def)
qed

lemma foldl_parse_append:
  "foldl (\<lambda>a c. 10 * a + digit_val c) a0 (xs @ ys) =
     foldl (\<lambda>a c. 10 * a + digit_val c) (foldl (\<lambda>a c. 10 * a + digit_val c) a0 xs) ys"
  by simp

lemma foldl_parse_acc:
  "foldl (\<lambda>a c. 10 * a + digit_val c) a0 ys =
     a0 * 10 ^ length ys + foldl (\<lambda>a c. 10 * a + digit_val c) 0 ys"
proof (induction ys arbitrary: a0)
  case Nil
  then show ?case by simp
next
  case (Cons y ys)
  have "foldl (\<lambda>a c. 10 * a + digit_val c) a0 (y # ys) =
      foldl (\<lambda>a c. 10 * a + digit_val c) (10 * a0 + digit_val y) ys" by simp
  also have "\<dots> = (10 * a0 + digit_val y) * 10 ^ length ys +
      foldl (\<lambda>a c. 10 * a + digit_val c) 0 ys" by (rule Cons.IH)
  also have "foldl (\<lambda>a c. 10 * a + digit_val c) 0 (y # ys) =
      digit_val y * 10 ^ length ys + foldl (\<lambda>a c. 10 * a + digit_val c) 0 ys"
    using Cons.IH[of "digit_val y"] by simp
  ultimately show ?case by (simp add: algebra_simps)
qed

lemma parse_nat_append:
  "parse_nat (xs @ ys) = parse_nat xs * 10 ^ length ys + parse_nat ys"
  unfolding parse_nat_def foldl_append by (rule foldl_parse_acc)

lemma parse_nat_digits: "parse_nat (digits n) = n"
proof (induction n rule: digits.induct)
  case (1 n)
  show ?case
  proof (cases "n < 10")
    case True
    then show ?thesis
      by (simp add: digits.simps[of n] parse_nat_def digit_val_digit_char)
  next
    case False
    have "parse_nat (digits n) = parse_nat (digits (n div 10)) * 10 + digit_val (digit_char (n mod 10))"
      using False by (simp add: digits.simps[of n] parse_nat_append) (simp add: parse_nat_def)
    also have "\<dots> = (n div 10) * 10 + n mod 10"
      using "1.IH"[OF False] by (simp add: digit_val_digit_char)
    finally show ?thesis by simp
  qed
qed

lemma parse_nat_zeros: "parse_nat (replicate j (CHR ''0'') @ s) = parse_nat s"
proof -
  have "parse_nat (replicate j (CHR ''0'')) = 0"
    by (induction j) (simp_all add: parse_nat_def digit_val_def)
  then show ?thesis by (simp add: parse_nat_append)
qed

lemma parse_nat_padStart: "parse_nat (padStart w (CHR ''0'') (digits n)) = n"
  by (simp add: padStart_def parse_nat_zeros parse_nat_digits)

lemma padStart_digit: "ch \<in> set (padStart w (CHR ''0'') (digits n)) \<Longrightarrow> is_digit ch"
  using digits_all_digit[of ch n] by (auto simp: padStart_def is_digit_def)

lemma length_padStart: "w \<le> length (padStart w c s)"
  by (simp add: padStart_def)

lemma is_digit_not_point: "is_digit ch \<Longrightarrow> ch \<noteq> CHR ''.'' \<and> ch \<noteq> CHR ''-''"
  by (auto simp: is_digit_def)

lemma decimal_value_fixed:
  assumes m: "\<forall>ch \<in> set m. is_digit ch" and len: "3 \<le> length m"
    and that: "sg = ''-'' \<or> sg = []"
  shows "decimal_value (sg @ take (length m - 2) m @ ''.'' @ drop (length m - 2) m) =
    (if sg = ''-'' then - (of_nat (parse_nat m) / 100) else of_nat (parse_nat m) / 100)"
proof -
  define k where "k = length m - 2"
  define ip where "ip = take k m"
  define fp where "fp = drop k m"
  have "0 < length ip" using len by (simp add: ip_def k_def)
  then have ipne: "ip \<noteq> []" by auto
  have ipd: "\<forall>ch \<in> set ip. ch \<noteq> CHR ''.''"
    using m is_digit_not_point by (auto simp: ip_def dest: in_set_takeD)
  have hd: "hd ip \<noteq> CHR ''-''"
    using ipne m is_digit_not_point[of "hd ip"] by (metis hd_in_set in_set_takeD ip_def)
  have lfp: "length fp = 2" using len by (simp add: fp_def k_def)
  have tw: "takeWhile (\<lambda>c. c \<noteq> CHR ''.'') (ip @ ''.'' @ fp) = ip"
    using ipd by (simp add: takeWhile_append2 takeWhile_tail)
  have dw: "dropWhile (\<lambda>c. c \<noteq> CHR ''.'') (ip @ ''.'' @ fp) = ''.'' @ fp"
    using ipd by (simp add: dropWhile_append2)
  have pm: "parse_nat m = parse_nat ip * 100 + parse_nat fp"
  proof -
    have "m = ip @ fp" by (simp add: ip_def fp_def)
    then show ?thesis using lfp by (simp add: parse_nat_append)
  qed
  have v: "(of_nat (parse_nat ip) :: rat) + of_nat (parse_nat fp) / 10 ^ length fp =
      of_nat (parse_nat m) / 100"
    by (simp add: pm lfp field_simps)
  have t1: "take 1 (ip @ ''.'' @ fp) \<noteq> ''-''"
    using ipne hd by (cases ip) auto
  show ?thesis
  proof (cases "sg = ''-''")
    case True
    then show ?thesis
      using tw dw v by (simp add: decimal_value_def Let_def flip: ip_def fp_def k_def)
  next
    case False
    with that have "sg = []" by simp
    then show ?thesis
      using tw dw v t1 by (simp add: decimal_value_def Let_def flip: ip_def fp_def k_def)
  qed
qed

lemma Number_toFixed2: "Number_of (toFixed2 x) = round2 x"
proof (cases "10 ^ 21 \<le> \<bar>x\<bar>")
  case True
  then show ?thesis by (simp add: toFixed2_def round2_def)
next
  case False
  define n where "n = nat \<lfloor>\<bar>x\<bar> * 100 + 1/2\<rfloor>"
  define m where "m = padStart 3 (CHR ''0'') (digits n)"
  define sg where "sg = (if x < 0 then ''-'' else [])"
  have fl: "0 \<le> \<lfloor>\<bar>x\<bar> * 100 + 1/2\<rfloor>" by simp
  have n: "(of_nat n :: rat) = of_int \<lfloor>\<bar>x\<bar> * 100 + 1/2\<rfloor>"
    using fl by (simp add: n_def)
  have md: "\<forall>ch \<in> set m. is_digit ch" using padStart_digit by (auto simp: m_def)
  have ml: "3 \<le> length m" by (simp add: m_def length_padStart)
  have sgc: "sg = ''-'' \<or> sg = []" by (simp add: sg_def)
  have pm: "parse_nat m = n" by (simp add: m_def parse_nat_padStart)
  have "toFixed2 x = Fixed (sg @ take (length m - 2) m @ ''.'' @ drop (length m - 2) m)"
    using False by (simp add: toFixed2_def Let_def n_def m_def sg_def)
  then have "Number_of (toFixed2 x) =
      binary64 (if sg = ''-'' then - (of_nat n / 100) else of_nat n / 100)"
    using decimal_value_fixed[OF md ml sgc] by (simp add: pm)
  also have "(if sg = ''-'' then - (of_nat n / 100) else of_nat n / 100) =
      sgn x * of_int \<lfloor>\<bar>x\<bar> * 100 + 1/2\<rfloor> / (100::rat)"
  proof (cases "x < 0")
    case True
    then show ?thesis by (simp add: sg_def n)
  next
    case False
    show ?thesis
    proof (cases "x = 0")
      case True
      then show ?thesis by (simp add: sg_def n_def)
    next
      case False
      with \<open>\<not> x < 0\<close> have "0 < x" by simp
      then show ?thesis by (simp add: sg_def n)
    qed
  qed
  finally show ?thesis using False by (simp add: round2_def)
qed

lemma recompute_item_fields:
  "importeIVA (recompute_item item) =
     round2 (fmul (fmul (cantidad item) (precioUnitario item)) (fdiv (alicuotaIVA item) 100))"
  "importeTotal (recompute_item item) =
     round2 (fadd (fmul (cantidad item) (precioUnitario item))
       (fmul (fmul (cantidad item) (precioUnitario item)) (fdiv (alicuotaIVA item) 100)))"
  by (simp_all add: recompute_item_def Let_def Number_toFixed2)

text \<open>
  Claim C1 says that the recomputed line total is \<open>round2 (quantity * unitPrice)\<close> plus
  the recomputed tax amount. For the line of quantity 1 at 2.0625 and 21% the tax amount
  is 0.43 (from 0.433125) and the line total is 2.50 (from 2.495625), while
  \<open>round2 2.0625 + 0.43\<close> is 2.49.
\<close>

theorem lineTotal_counterexample:
  "importeIVA (recompute_item line_frac) = binary64 (43/100) \<and>
   importeTotal (recompute_item line_frac) = 5/2 \<and>
   round2 (fmul (cantidad line_frac) (precioUnitario line_frac)) = binary64 (206/100) \<and>
   fadd (round2 (fmul (cantidad line_frac) (precioUnitario line_frac)))
     (importeIVA (recompute_item line_frac)) = binary64 (249/100) \<and>
   binary64 (249/100) \<noteq> 5/2"
proof -
  have rate: "binary64 (21 / 100) = 7566047373982433 / 36028797018963968"
    by (rule binary64_eval[where k="- 3"]) (simp_all add: round_even_def Let_def power_int_minus)
  have iva: "binary64 (33 / 16 * (7566047373982433 / 36028797018963968)) = 975310794302423 / 2251799813685248"
    by (rule binary64_eval[where k="- 2"]) (simp_all add: round_even_def Let_def power_int_minus)
  have tot: "binary64 (33 / 16 + 975310794302423 / 2251799813685248) = 5619647910028247 / 2251799813685248"
    by (rule binary64_eval[where k="1"]) (simp_all add: round_even_def Let_def power_int_minus)
  have b43: "binary64 (43 / 100) = 7746191359077253 / 18014398509481984"
    by (rule binary64_eval[where k="- 2"]) (simp_all add: round_even_def Let_def power_int_minus)
  have b206: "binary64 (206 / 100) = 4638707616191611 / 2251799813685248"
    by (rule binary64_eval[where k="1"]) (simp_all add: round_even_def Let_def power_int_minus)
  have b249: "binary64 (249 / 100) = 1401745384019067 / 562949953421312"
    by (rule binary64_eval[where k="1"]) (simp_all add: round_even_def Let_def power_int_minus)
  have sm: "binary64 (4638707616191611 / 2251799813685248 + 7746191359077253 / 18014398509481984) = 1401745384019067 / 562949953421312"
    by (rule binary64_eval[where k="1"]) (simp_all add: round_even_def Let_def power_int_minus)
  have s: "fmul 1 (33/16) = 33/16"
    using binary64_scaled[of 33 "- 4"] by (simp add: fmul_def power_int_minus)
  have i: "fmul (33/16) (fdiv 21 100) = 975310794302423 / 2251799813685248"
    unfolding fdiv_def rate fmul_def by (rule iva)
  have t: "fadd (33/16) (975310794302423 / 2251799813685248) = 5619647910028247 / 2251799813685248"
    unfolding fadd_def by (rule tot)
  have ri: "round2 (975310794302423 / 2251799813685248) = binary64 (43/100)"
    by (simp add: round2_def)
  have b52: "binary64 (5/2) = 5/2"
    using binary64_scaled[of 5 "- 1"] by (simp add: power_int_minus)
  have rt: "round2 (5619647910028247 / 2251799813685248) = 5/2"
    by (simp add: round2_def b52)
  have rs: "round2 (33/16) = binary64 (206/100)"
    by (simp add: round2_def)
  have c: "cantidad line_frac = 1" "precioUnitario line_frac = 33/16" "alicuotaIVA line_frac = 21"
    by (simp_all add: line_frac_def)
  have 1: "importeIVA (recompute_item line_frac) = binary64 (43/100)"
    using recompute_item_fields(1)[of line_frac] unfolding c s i ri by simp
  have 2: "importeTotal (recompute_item line_frac) = 5/2"
    using recompute_item_fields(2)[of line_frac] unfolding c s i t rt by simp
  have 3: "round2 (fmul (cantidad line_frac) (precioUnitario line_frac)) = binary64 (206/100)"
    unfolding c s by (rule rs)
  have 4: "fadd (binary64 (206 / 100)) (binary64 (43 / 100)) = binary64 (249 / 100)"
    unfolding fadd_def b206 b43 b249 by (rule sm)
  have 5: "binary64 (249 / 100) \<noteq> 5/2"
    unfolding b249 by simp
  show ?thesis unfolding 3 1 2 using 4 5 by simp
qed

text \<open>
  Claim C1, amended. For every invoice line, with \<open>s\<close> the product of quantity and
  unit price, the recomputed tax amount \<^verbatim>\<open>importeIVA\<close> is
  \<open>round2 (s * (taxRatePercent / 100))\<close> and the recomputed line total
  \<^verbatim>\<open>importeTotal\<close> is \<open>round2 (s + s * (taxRatePercent / 100))\<close>: the total is
  rounded once, from the unrounded net and tax. Products, quotient and sum are those of
  binary64 arithmetic.
\<close>

theorem recompute_item_round2:
  "importeIVA (recompute_item item) =
     round2 (fmul (fmul (cantidad item) (precioUnitario item)) (fdiv (alicuotaIVA item) 100)) \<and>
   importeTotal (recompute_item item) =
     round2 (fadd (fmul (cantidad item) (precioUnitario item))
       (fmul (fmul (cantidad item) (precioUnitario item)) (fdiv (alicuotaIVA item) 100)))"
  using recompute_item_fields[of item] by blast

section \<open>The totals of an invoice and the order of its lines\<close>

text \<open>Rounding a binary64 value again leaves it unchanged.\<close>

lemma round_even_ge: "y - 1/2 \<le> of_int (round_even y)"
proof -
  define f where "f = \<lfloor>y\<rfloor>"
  have "of_int f \<le> y" "y < of_int f + 1" unfolding f_def by linarith+
  then show ?thesis
    by (auto simp: round_even_def Let_def simp flip: f_def)
qed

lemma round_even_abs_le:
  assumes "\<bar>y\<bar> < of_int N"
  shows "\<bar>round_even y\<bar> \<le> N"
proof -
  have "(of_int (round_even y) :: rat) < of_int N + 1/2"
    using round_even_le[of y] assms by linarith
  then have "(of_int (round_even y) :: rat) < of_int (N + 1)" by simp
  then have 1: "round_even y < N + 1" by (simp only: of_int_less_iff)
  have "- (of_int N :: rat) - 1/2 < of_int (round_even y)"
    using round_even_ge[of y] assms by linarith
  then have "(of_int (- N - 1) :: rat) < of_int (round_even y)" by simp
  then have 2: "- N - 1 < round_even y" by (simp only: of_int_less_iff)
  from 1 2 show ?thesis by linarith
qed

lemma binary64_idem: "binary64 (binary64 x) = binary64 x"
proof (cases "x = 0")
  case True
  then show ?thesis by simp
next
  case False
  define e where "e = max (ilog2 \<bar>x\<bar> - 52) (- 1074)"
  define m where "m = round_even (x / 2 powi e)"
  have bx: "binary64 x = of_int m * 2 powi e"
    using False by (simp add: binary64_def Let_def e_def m_def)
  have e1: "- 1074 \<le> e" by (simp add: e_def)
  have p2: "(0::rat) < 2 powi e" by (rule zero_less_power_int) simp
  have xpos: "0 < \<bar>x\<bar>" using False by simp
  have "\<bar>x\<bar> < 2 powi (ilog2 \<bar>x\<bar> + 1)" using ilog2_bounds[OF xpos] by simp
  also have "\<dots> \<le> 2 powi (e + 53)"
    by (rule power_int_increasing) (simp_all add: e_def)
  also have "\<dots> = 2 powi e * 2 ^ 53" by (simp add: power_int_add)
  finally have "\<bar>x\<bar> / 2 powi e < 2 ^ 53" using p2 by (simp add: pos_divide_less_eq mult.commute)
  then have "\<bar>x / 2 powi e\<bar> < of_int (2 ^ 53)" using p2 by (simp add: abs_divide)
  from round_even_abs_le[OF this] have m53: "\<bar>m\<bar> \<le> 2 ^ 53" by (simp add: m_def)
  show ?thesis
  proof (cases "m = 0")
    case True
    then show ?thesis by (simp add: bx)
  next
    case m0: False
    show ?thesis
    proof (cases "\<bar>m\<bar> < 2 ^ 53")
      case True
      from binary64_scaled[OF m0 True e1] show ?thesis by (simp add: bx)
    next
      case False
      with m53 have "\<bar>m\<bar> = 2 ^ 53" by simp
      then have "m = 2 ^ 53 \<or> m = - (2 ^ 53)" by linarith
      then have mm: "m = 2 * (m div 2)" and h: "\<bar>m div 2\<bar> < 2 ^ 53" "m div 2 \<noteq> 0"
        by auto
      have "of_int m * (2::rat) powi e = of_int (m div 2) * 2 powi (e + 1)"
        by (subst mm) (simp add: power_int_add)
      moreover have "binary64 (of_int (m div 2) * 2 powi (e + 1)) = of_int (m div 2) * 2 powi (e + 1)"
        by (rule binary64_scaled[OF h(2) h(1)]) (use e1 in simp)
      ultimately show ?thesis by (simp add: bx)
    qed
  qed
qed

lemma mset_eq_two: "mset ys = mset [a, b] \<Longrightarrow> ys = [a, b] \<or> ys = [b, a]"
proof -
  assume a: "mset ys = mset [a, b]"
  then have "length ys = 2" by (metis length_Cons list.size(3) size_mset numeral_2_eq_2)
  then obtain c d where ys: "ys = [c, d]"
    by (metis (no_types, opaque_lifting) Suc_length_conv length_0_conv numeral_2_eq_2)
  with a show ?thesis by (auto simp: add_eq_conv_ex)
qed

lemma fadd_zero_double: "binary64 a = a \<Longrightarrow> fadd 0 a = a"
  by (simp add: fadd_def)

lemma fadd_zero_fmul: "fadd 0 (fmul a b) = fmul a b"
  by (simp add: fadd_def fmul_def binary64_idem)

lemma fadd_commute: "fadd a b = fadd b a"
  by (simp add: fadd_def add.commute)

text \<open>
  Claim C9 says that the computed totals are identical for every permutation of the lines.
  The three lines of 0.5 at 2.29, 1 at 17 and 1 at 20 give the subtotal 38.14 in this
  order and 38.15 in the reverse order: the additions are binary64 additions carried out
  in list order, and the two sums fall on either side of 38.145.
\<close>

theorem totals_order_counterexample:
  "mset (rev lines3) = mset lines3 \<and>
   totals_subtotal (calculateTotals lines3) = binary64 (3814 / 100) \<and>
   totals_subtotal (calculateTotals (rev lines3)) = binary64 (3815 / 100) \<and>
   binary64 (3814 / 100) \<noteq> binary64 (3815 / 100)"
proof -
  have p: "binary64 (229 / 100) = 2578310786669609 / 1125899906842624"
    by (rule binary64_eval[where k="1"]) (simp_all add: round_even_def Let_def power_int_minus)
  have a: "binary64 (1 / 2 * (2578310786669609 / 1125899906842624)) = 2578310786669609 / 2251799813685248"
    by (rule binary64_eval[where k="0"]) (simp_all add: round_even_def Let_def power_int_minus)
  have s2: "binary64 (2578310786669609 / 2251799813685248 + 17) = 5107363452414853 / 281474976710656"
    by (rule binary64_eval[where k="4"]) (simp_all add: round_even_def Let_def power_int_minus)
  have s3: "binary64 (5107363452414853 / 281474976710656 + 20) = 2684215746656993 / 70368744177664"
    by (rule binary64_eval[where k="5"]) (simp_all add: round_even_def Let_def power_int_minus)
  have r3: "binary64 (37 + 2578310786669609 / 2251799813685248) = 5368431493313987 / 140737488355328"
    by (rule binary64_eval[where k="5"]) (simp_all add: round_even_def Let_def power_int_minus)
  have b14: "binary64 (3814 / 100) = 2683863902936105 / 70368744177664"
    by (rule binary64_eval[where k="5"]) (simp_all add: round_even_def Let_def power_int_minus)
  have b15: "binary64 (3815 / 100) = 5369135180755763 / 140737488355328"
    by (rule binary64_eval[where k="5"]) (simp_all add: round_even_def Let_def power_int_minus)
  have la: "fmul (1 / 2) (binary64 (229 / 100)) = 2578310786669609 / 2251799813685248"
    unfolding fmul_def p by (rule a)
  have lb: "fmul 1 17 = 17" "fmul 1 20 = 20"
    by (simp_all add: fmul_def binary64_numeral)
  have f1: "fadd (fadd (fadd 0 (fmul (1 / 2) (binary64 (229 / 100)))) (fmul 1 17)) (fmul 1 20) =
      2684215746656993 / 70368744177664"
    unfolding fadd_zero_fmul unfolding la lb unfolding fadd_def s2 by (rule s3)
  have z: "fadd 0 20 = 20" "fadd 20 17 = 37"
    by (simp_all add: fadd_def binary64_numeral)
  have f2: "fadd (fadd (fadd 0 (fmul 1 20)) (fmul 1 17)) (fmul (1 / 2) (binary64 (229 / 100))) =
      5368431493313987 / 140737488355328"
    unfolding la lb z unfolding fadd_def by (rule r3)
  have sub1: "foldl (\<lambda>sum item. fadd sum (fmul (cantidad item) (precioUnitario item))) 0 lines3 =
      fadd (fadd (fadd 0 (fmul (1 / 2) (binary64 (229 / 100)))) (fmul 1 17)) (fmul 1 20)"
    by (simp add: lines3_def recompute_items_def recompute_item_def Let_def)
  have sub2: "foldl (\<lambda>sum item. fadd sum (fmul (cantidad item) (precioUnitario item))) 0
        (rev lines3) =
      fadd (fadd (fadd 0 (fmul 1 20)) (fmul 1 17)) (fmul (1 / 2) (binary64 (229 / 100)))"
    by (simp add: lines3_def recompute_items_def recompute_item_def Let_def)
  have r1: "round2 (2684215746656993 / 70368744177664) = binary64 (3814 / 100)"
    by (simp add: round2_def)
  have r2: "round2 (5368431493313987 / 140737488355328) = binary64 (3815 / 100)"
    by (simp add: round2_def)
  have 1: "totals_subtotal (calculateTotals lines3) = binary64 (3814 / 100)"
    unfolding calculateTotals_def Let_def sub1 f1 Number_toFixed2 r1 by simp
  have 2: "totals_subtotal (calculateTotals (rev lines3)) = binary64 (3815 / 100)"
    unfolding calculateTotals_def Let_def sub2 f2 Number_toFixed2 r2 by simp
  have 3: "binary64 (3814 / 100) \<noteq> binary64 (3815 / 100)"
    unfolding b14 b15 by simp
  show ?thesis using 1 2 3 by simp
qed

text \<open>
  Claim C9, amended. Computing the totals is order-independent for every list of at most
  two lines (whose stored tax amounts are numbers, that is binary64 values): for every
  permutation of such a list the subtotal, the tax total and the total of
  \<^verbatim>\<open>calculateTotals\<close>, and the two sums the route handler recomputes, are identical to
  those of the original order. From three lines on the sums are taken in list order and
  can differ between permutations.
\<close>

theorem calculateTotals_two_lines:
  assumes "mset ys = mset xs" "length xs \<le> 2"
    and "\<forall>item \<in> set xs. binary64 (importeIVA item) = importeIVA item"
  shows "calculateTotals ys = calculateTotals xs \<and>
    foldl (\<lambda>sum item. fadd sum (fmul (cantidad item) (precioUnitario item))) 0 ys =
    foldl (\<lambda>sum item. fadd sum (fmul (cantidad item) (precioUnitario item))) 0 xs \<and>
    foldl (\<lambda>sum item. fadd sum (importeIVA item)) 0 ys =
    foldl (\<lambda>sum item. fadd sum (importeIVA item)) 0 xs"
proof -
  consider "xs = []" | a where "xs = [a]" | a b where "xs = [a, b]"
    using assms(2) by (cases xs; cases "tl xs"; cases "tl (tl xs)") auto
  then show ?thesis
  proof cases
    case 1
    with assms(1) show ?thesis by simp
  next
    case 2
    with assms(1) have "ys = [a]" by (metis mset_single_iff_right mset.simps(1,2))
    with 2 show ?thesis by simp
  next
    case 3
    with assms(1) have "ys = [a, b] \<or> ys = [b, a]" by (simp add: mset_eq_two)
    moreover have "binary64 (importeIVA a) = importeIVA a" "binary64 (importeIVA b) = importeIVA b"
      using assms(3) 3 by simp_all
    ultimately show ?thesis using 3
      by (auto simp: calculateTotals_def Let_def fadd_zero_fmul fadd_zero_double
          fadd_commute[of "fmul (cantidad a) (precioUnitario a)"]
          fadd_commute[of "importeIVA a"])
  qed
qed

theorem calculateTotals_two_lines_witness:
  "calculateTotals [line1, line0] = calculateTotals [line0, line1] \<and>
    foldl (\<lambda>sum item. fadd sum (fmul (cantidad item) (precioUnitario item))) 0 [line1, line0] =
    foldl (\<lambda>sum item. fadd sum (fmul (cantidad item) (precioUnitario item))) 0 [line0, line1] \<and>
    foldl (\<lambda>sum item. fadd sum (importeIVA item)) 0 [line1, line0] =
    foldl (\<lambda>sum item. fadd sum (importeIVA item)) 0 [line0, line1]"
proof -
  have 1: "mset [line1, line0] = mset [line0, line1]" by simp
  have 2: "length [line0, line1] \<le> 2" by simp
  have "binary64 (21 / 4) = 21 / 4"
    using binary64_scaled[of 21 "- 2"] by (simp add: power_int_minus)
  then have 3: "\<forall>item \<in> set [line0, line1]. binary64 (importeIVA item) = importeIVA item"
    by (simp add: line0_def line1_def binary64_numeral)
  from calculateTotals_two_lines[OF 1 2 3] show ?thesis .
qed

section \<open>The verification payload\<close>















end
